theory Spec2Isabelle
  imports Complex_Main "HOL-Library.Word"
begin

section \<open>Strings and file names\<close>

text \<open>
  Python strings are modelled as \<open>string\<close> (a list of 8-bit characters, the UTF-8 bytes
  of the text); every string literal of the program but one banner line is plain ASCII.
  The bytes of a response body are a list of 8-bit words.
\<close>

type_synonym bytes = "8 word list"

text \<open>
  \<open>name.replace(ch, "_")\<close> for a one-character \<open>ch\<close>: every occurrence of the
  character is replaced, everything else is kept.
\<close>

definition replace_char :: "char \<Rightarrow> char \<Rightarrow> string \<Rightarrow> string" where
  "replace_char old new name = map (\<lambda>c. if c = old then new else c) name"

text \<open>
  The raw string literal \<^verbatim>\<open>r'\/:*?"<>|'\<close> of \<open>safe_filename\<close>: nine characters,
  the backslash (0x5C) first and the double quote (0x22) sixth.
\<close>

definition ILLEGAL :: string where
  "ILLEGAL = [CHR 0x5C, CHR ''/'', CHR '':'', CHR ''*'', CHR ''?'', CHR 0x22,
              CHR ''<'', CHR ''>'', CHR ''|'']"

text \<open>
  \<^verbatim>\<open>
  def safe_filename(name):
      for ch in r'\/:*?"<>|':
          name = name.replace(ch, "_")
      return name
  \<close>
  The loop is a left fold over the nine characters, with \<open>name\<close> as the state.
\<close>

definition safe_filename :: "string \<Rightarrow> string" where
  "safe_filename name = foldl (\<lambda>name ch. replace_char ch (CHR ''_'') name) name ILLEGAL"

section \<open>Library functions the program calls\<close>

text \<open>Decimal rendering of an integer, as \<open>str\<close> and an f-string field do it.\<close>

fun show_nat :: "nat \<Rightarrow> string" where
  "show_nat n =
     (if n < 10 then [''0123456789'' ! n]
      else show_nat (n div 10) @ [''0123456789'' ! (n mod 10)])"

declare show_nat.simps [simp del]

definition show_int :: "int \<Rightarrow> string" where
  "show_int i = (if i < 0 then ''-'' @ show_nat (nat (- i)) else show_nat (nat i))"

text \<open>
  \<open>urllib.parse.quote(s)\<close> with its default \<open>safe='/'\<close>: letters, digits and
  \<open>_.-~\<close> are kept, and so is the slash; every other byte becomes \<open>%XX\<close> in upper-case
  hexadecimal.
\<close>

definition ALWAYS_SAFE :: string where
  "ALWAYS_SAFE =
     ''ABCDEFGHIJKLMNOPQRSTUVWXYZabcdefghijklmnopqrstuvwxyz0123456789_.-~''"

definition quote_byte :: "char \<Rightarrow> string" where
  "quote_byte c =
     (if c \<in> set ALWAYS_SAFE \<or> c = CHR ''/'' then [c]
      else [CHR ''%'', ''0123456789ABCDEF'' ! (of_char c div 16),
            ''0123456789ABCDEF'' ! (of_char c mod 16)])"

definition quote :: "string \<Rightarrow> string" where
  "quote s = concat (map quote_byte s)"

text \<open>
  \<open>os.path.join\<close> and \<open>os.path.dirname\<close> as \<open>posixpath\<close> defines them (separator
  \<open>/\<close>):
  \<^verbatim>\<open>
  def join(a, *p):
      path = a
      for b in p:
          if b.startswith(sep):                 path = b
          elif not path or path.endswith(sep):  path += b
          else:                                 path += sep + b
      return path

  def dirname(p):
      i = p.rfind(sep) + 1
      head = p[:i]
      if head and head != sep*len(head):
          head = head.rstrip(sep)
      return head
  \<close>
\<close>

definition join_step :: "string \<Rightarrow> string \<Rightarrow> string" where
  "join_step path b =
     (if b \<noteq> [] \<and> hd b = CHR ''/'' then b
      else if path = [] \<or> last path = CHR ''/'' then path @ b
      else path @ ''/'' @ b)"

definition path_join :: "string \<Rightarrow> string list \<Rightarrow> string" where
  "path_join a p = foldl join_step a p"

definition rstrip_sep :: "string \<Rightarrow> string" where
  "rstrip_sep s = rev (dropWhile (\<lambda>c. c = CHR ''/'') (rev s))"

definition dirname :: "string \<Rightarrow> string" where
  "dirname p =
     (let head = rev (dropWhile (\<lambda>c. c \<noteq> CHR ''/'') (rev p))
      in if head \<noteq> [] \<and> head \<noteq> replicate (length head) (CHR ''/'')
         then rstrip_sep head else head)"

text \<open>The f-string fields \<open>{status:4s}\<close> and \<open>{label[:72]:<72}\<close>: left-justified padding.\<close>

definition ljust :: "nat \<Rightarrow> string \<Rightarrow> string" where
  "ljust n s = s @ replicate (n - length s) (CHR '' '')"

text \<open>
  \<open>f"{len(data) / 1024:.1f} KB"\<close>: the quotient is a power-of-two division, exact in
  binary floating point for every length below \<open>2^53\<close>, and \<open>.1f\<close> rounds the exact
  value to one decimal, ties to the even digit. \<open>t\<close> is the number of tenths.
\<close>

definition size_message :: "nat \<Rightarrow> string" where
  "size_message n =
     (let q = (10 * n) div 1024; r = (10 * n) mod 1024;
          t = (if 512 < r \<or> (r = 512 \<and> odd q) then q + 1 else q)
      in show_nat (t div 10) @ ''.'' @ show_nat (t mod 10) @ '' KB'')"

section \<open>Exceptions\<close>

text \<open>
  The three classes the \<open>except\<close> clauses of \<open>download_file\<close> test.
  \<open>urllib.error.HTTPError\<close> is a subclass of \<open>urllib.error.URLError\<close>, which is a
  subclass of \<open>Exception\<close>. An exception object carries its most specific class among
  the three and the attributes the handlers read: \<open>e.code\<close>, \<open>str(e.reason)\<close> and
  \<open>str(e)\<close>. The model covers instances of \<open>Exception\<close>; \<open>KeyboardInterrupt\<close> and
  \<open>SystemExit\<close>, which end the process, are outside it.
\<close>

datatype exn_class = HTTPError | URLError | Exception

record exn =
  exn_class :: exn_class
  exn_code :: int
  exn_reason :: string
  exn_str :: string

fun issubclass :: "exn_class \<Rightarrow> exn_class \<Rightarrow> bool" where
  "issubclass HTTPError c = True"
| "issubclass URLError c = (c \<noteq> HTTPError)"
| "issubclass Exception c = (c = Exception)"

definition isinstance :: "exn \<Rightarrow> exn_class \<Rightarrow> bool" where
  "isinstance e c = issubclass (exn_class e) c"

text \<open>
  \<^verbatim>\<open>
  except urllib.error.HTTPError as e:  return False, f"HTTP {e.code}"
  except urllib.error.URLError as e:   return False, str(e.reason)
  except Exception as e:               return False, str(e)
  \<close>
  Python runs the first clause, in source order, whose class the exception is an
  instance of; with no such clause the exception propagates.
\<close>

definition EXCEPT_CLAUSES :: "exn_class list" where
  "EXCEPT_CLAUSES = [HTTPError, URLError, Exception]"

fun handler :: "exn_class \<Rightarrow> exn \<Rightarrow> bool \<times> string" where
  "handler HTTPError e = (False, ''HTTP '' @ show_int (exn_code e))"
| "handler URLError e = (False, exn_reason e)"
| "handler Exception e = (False, exn_str e)"

definition except_clauses :: "exn \<Rightarrow> exn + bool \<times> string" where
  "except_clauses e =
     (case find (isinstance e) EXCEPT_CLAUSES of
        Some c \<Rightarrow> Inr (handler c e)
      | None \<Rightarrow> Inl e)"

section \<open>The outside world\<close>

text \<open>
  What the program does to the outside is recorded as a chronological list of events.
  \<open>Call\<close> marks an invocation of \<open>download_file\<close> with its two arguments; the other
  events are the library calls with an effect.
\<close>

datatype event =
    Call string string
  | Makedirs string
  | Urlopen string "(string \<times> string) list" nat
  | OpenWb string
  | Write string bytes
  | Sleep rat
  | Print string

record world =
  files :: "string \<rightharpoonup> bytes"
  events :: "event list"
  ncalls :: nat

definition emit :: "event \<Rightarrow> world \<Rightarrow> world" where
  "emit ev w = w\<lparr>events := events w @ [ev]\<rparr>"

text \<open>
  How the outside answers the library calls of one invocation of \<open>download_file\<close>:
  for each call, the exception it raises if it is reached (\<open>None\<close>: it succeeds).
  \<open>read_result\<close> is the outcome of \<open>resp.read()\<close> and of leaving the \<open>with\<close> block of
  the response; \<open>write_exn\<close> is the outcome of \<open>f.write(data)\<close> and of closing the
  file, with the number of bytes that reached the file before the exception.
\<close>

record outcomes =
  makedirs_exn :: "exn option"
  Request_exn :: "exn option"
  urlopen_exn :: "exn option"
  read_result :: "exn + bytes"
  open_exn :: "exn option"
  write_exn :: "(exn \<times> nat) option"

text \<open>
  The environment of a run: the outcomes of the \<open>n\<close>-th invocation (counted from 0) of
  \<open>download_file\<close>, which may depend on the URL and the destination path.
\<close>

type_synonym env = "nat \<Rightarrow> string \<Rightarrow> string \<Rightarrow> outcomes"

section \<open>download_file\<close>

definition HEADERS :: "(string \<times> string) list" where
  "HEADERS =
     [(''User-Agent'',
       ''Mozilla/5.0 (Windows NT 10.0; Win64; x64) '' @
       ''AppleWebKit/537.36 (KHTML, like Gecko) '' @
       ''Chrome/131.0.0.0 Safari/537.36''),
      (''Accept'', ''*/*'')]"

text \<open>
  The body of the \<open>try\<close> block:
  \<^verbatim>\<open>
  with urllib.request.urlopen(req, timeout=120) as resp:
      data = resp.read()
  with open(dest_path, "wb") as f:
      f.write(data)
  size_kb = len(data) / 1024
  return True, f"{size_kb:.1f} KB"
  \<close>
  It yields the message of the \<open>return\<close>, or the exception raised inside it. Opening
  with mode \<open>"wb"\<close> creates the file or truncates it.
\<close>

definition try_block :: "outcomes \<Rightarrow> string \<Rightarrow> string \<Rightarrow> world \<Rightarrow> (exn + string) \<times> world" where
  "try_block oc url dest_path w1 =
     (let w2 = emit (Urlopen url HEADERS 120) w1 in
      case urlopen_exn oc of
        Some e \<Rightarrow> (Inl e, w2)
      | None \<Rightarrow>
         (case read_result oc of
            Inl e \<Rightarrow> (Inl e, w2)
          | Inr data \<Rightarrow>
             (let w3 = emit (OpenWb dest_path) w2 in
              case open_exn oc of
                Some e \<Rightarrow> (Inl e, w3)
              | None \<Rightarrow>
                 (let w4 = w3\<lparr>files := (files w3)(dest_path \<mapsto> [])\<rparr> in
                  case write_exn oc of
                    Some (e, k) \<Rightarrow>
                      (Inl e, w4\<lparr>files := (files w4)(dest_path \<mapsto> take k data)\<rparr>)
                  | None \<Rightarrow>
                      (Inr (size_message (length data)),
                       emit (Write dest_path data)
                         (w4\<lparr>files := (files w4)(dest_path \<mapsto> data)\<rparr>))))))"

text \<open>
  \<^verbatim>\<open>
  def download_file(url, dest_path):
      os.makedirs(os.path.dirname(dest_path), exist_ok=True)
      req = urllib.request.Request(url, headers=HEADERS)
      try: ...
      except ...
  \<close>
  The result is \<open>Inr (success, message)\<close> when the function returns and \<open>Inl e\<close> when
  the exception \<open>e\<close> leaves it. \<open>os.makedirs\<close> and the \<open>Request\<close> constructor stand
  before the \<open>try\<close>, so what they raise is not handled.
\<close>

definition download_file :: "outcomes \<Rightarrow> string \<Rightarrow> string \<Rightarrow> world \<Rightarrow> (exn + bool \<times> string) \<times> world" where
  "download_file oc url dest_path w =
     (let w0 = emit (Call url dest_path) (w\<lparr>ncalls := ncalls w + 1\<rparr>);
          w1 = emit (Makedirs (dirname dest_path)) w0
      in case makedirs_exn oc of
           Some e \<Rightarrow> (Inl e, w1)
         | None \<Rightarrow>
            (case Request_exn oc of
               Some e \<Rightarrow> (Inl e, w1)
             | None \<Rightarrow>
                (case try_block oc url dest_path w1 of
                   (Inr msg, w2) \<Rightarrow> (Inr (True, msg), w2)
                 | (Inl e, w2) \<Rightarrow> (except_clauses e, w2))))"

section \<open>The manifests\<close>

definition OUTPUT_DIR :: string where
  "OUTPUT_DIR = ''fy2026_budget''"

definition ARMY_BASE :: string where
  "ARMY_BASE =
     ''https://www.asafm.army.mil/Portals/72/Documents/BudgetMaterial/2026/Discretionary%20Budget''"

definition AF_BASE :: string where
  "AF_BASE = ''https://www.saffm.hq.af.mil/Portals/84/documents/FY26''"

definition DW_BASE :: string where
  "DW_BASE =
     ''https://comptroller.war.gov/Portals/45/Documents/defbudget/FY2026/budget_justification/pdfs''"

text \<open>
  A manifest entry is a Python tuple of strings, modelled as the list of its components.
  The four lists are the source's, entry by entry.
\<close>

definition ARMY_FILES :: "string list list" where
  "ARMY_FILES =
    [[''Military Personnel'', ''Military Personnel Army Volume 1'', ''xml''],
     [''Military Personnel'', ''Reserve Personnel Army Volume 1'', ''xml''],
     [''Military Personnel'', ''National Guard Personnel Army Volume 1'', ''xml''],
     [''Operation and Maintenance'', ''Regular Army Operation and Maintenance Volume 1'', ''json''],
     [''Operation and Maintenance'', ''Regular Army Operation and Maintenance Volume 2'', ''json''],
     [''Operation and Maintenance'', ''Reserve Army Operation and Maintenance Overview'', ''xml''],
     [''Operation and Maintenance'', ''Reserve Army Operation and Maintenance'', ''xml''],
     [''Operation and Maintenance'', ''National Guard Army Operation and Maintenance Overview'', ''xml''],
     [''Operation and Maintenance'', ''National Guard Army Operation and Maintenance'', ''xml''],
     [''Procurement'', ''Aircraft Procurement Army'', ''xml''],
     [''Procurement'', ''Missile Procurement Army'', ''xml''],
     [''Procurement'', ''Other Procurement - BA1 - Tactical & Support Vehicles'', ''xml''],
     [''Procurement'', ''Other Procurement - BA2 - Communications & Electronics'', ''xml''],
     [''Procurement'', ''Other Procurement - BA 3, 4 & 6 - Other Support Equipment, Initial Spares and Agile Portfolio Management'', ''xml''],
     [''Procurement'', ''Procurement of Ammunition'', ''xml''],
     [''Procurement'', ''Procurement of Weapons and Tracked Combat Vehicles'', ''xml''],
     [''rdte'', ''RDTE - Vol 1 - Budget Activity 1'', ''xml''],
     [''rdte'', ''RDTE - Vol 1 - Budget Activity 2'', ''xml''],
     [''rdte'', ''RDTE - Vol 1 - Budget Activity 3'', ''xml''],
     [''rdte'', ''RDTE - Vol 2 - Budget Activity 4A'', ''xml''],
     [''rdte'', ''RDTE - Vol 2 - Budget Activity 4B'', ''xml''],
     [''rdte'', ''RDTE - Vol 3 - Budget Activity 5A'', ''xml''],
     [''rdte'', ''RDTE - Vol 3 - Budget Activity 5B'', ''xml''],
     [''rdte'', ''RDTE - Vol 3 - Budget Activity 5C'', ''xml''],
     [''rdte'', ''RDTE - Vol 3 - Budget Activity 5D'', ''xml''],
     [''rdte'', ''RDTE - Vol 4 - Budget Activity 6'', ''xml''],
     [''rdte'', ''RDTE - Vol 4 - Budget Activity 7'', ''xml''],
     [''rdte'', ''RDTE - Vol 4 - Budget Activity 8'', ''xml''],
     [''rdte'', ''RDTE - Vol 4 - Budget Activity 9'', ''xml''],
     [''Military Construction'', ''Regular Army Military Construction, Army Family Housing and Homeowners Assistance'', ''xml''],
     [''Military Construction'', ''Reserve Army Military Construction'', ''xml''],
     [''Military Construction'', ''National Guard Army Military Construction'', ''xml''],
     [''Military Construction'', ''Base Realignment and Closure Account'', ''xml''],
     [''awcf'', ''Army Working Capital Fund'', ''xml''],
     [''camdd'', ''Chemical Agents and Munitions Destruction, Defense'', ''xml''],
     [''U.S. Army Cemeterial Expenses and Construction'', ''U.S. Army Cemeterial Expenses and Construction'', ''xml''],
     [''Other Funds'', ''Counter-Islamic State of Iraq and Syria Train and Equip Fund'', ''xml'']]"

definition AF_FILES :: "string list list" where
  "AF_FILES =
    [[''BRAC'', ''FY26 Base Realignment and Closure'', ''xml''],
     [''MILCON'', ''FY26 Air Force MILCON'', ''xml''],
     [''MILCON'', ''FY26 Air National Guard MILCON'', ''xml''],
     [''MILCON'', ''FY26 Air Force Reserve MILCON'', ''xml''],
     [''MILPERS'', ''FY26 Air Force MILPERS'', ''xml''],
     [''MILPERS'', ''FY26 Air National Guard MILPERS'', ''xml''],
     [''MILPERS'', ''FY26 Air Force Reserves MILPERS'', ''xml''],
     [''MILPERS'', ''FY26 Space Force MILPERS'', ''xml''],
     [''O&M'', ''FY26 Air Force Operations and Maintenance Vol I'', ''xml''],
     [''O&M'', ''FY26 Air Force Operations and Maintenance Vol II'', ''xml''],
     [''O&M'', ''FY26 Air National Guard Operation and Maintenance Vol I'', ''xml''],
     [''O&M'', ''FY26 Air National Guard Operation and Maintenance Vol II'', ''xml''],
     [''O&M'', ''FY26 Air Force Reserve Operations and Maintenance Vol I'', ''xml''],
     [''O&M'', ''FY26 Air Force Reserve Operations and Maintenance Vol II'', ''xml''],
     [''O&M'', ''FY26 Space Force Operations and Maintenance Vol I'', ''xml''],
     [''O&M'', ''FY26 Space Force Operations and Maintenance Vol II'', ''xml''],
     [''Procurement'', ''FY26 Air Force Aircraft Procurement Vol I'', ''xml''],
     [''Procurement'', ''FY26 Air Force Aircraft Procurement Vol II'', ''xml''],
     [''Procurement'', ''FY26 Air Force Ammunition Procurement'', ''xml''],
     [''Procurement'', ''FY26 Air Force Missile Procurement'', ''xml''],
     [''Procurement'', ''FY26 Air Force Other Procurement'', ''xml''],
     [''Procurement'', ''FY26 Space Force Procurement'', ''xml''],
     [''RDTE'', ''FY26 Air Force Research and Development Test and Evaluation Vol I'', ''xml''],
     [''RDTE'', ''FY26 Air Force Research and Development Test and Evaluation Vol II'', ''xml''],
     [''RDTE'', ''FY26 Air Force Research and Development Test and Evaluation Vol III'', ''xml''],
     [''RDTE'', ''FY26 Space Force Research and Development Test and Evaluation Vol I'', ''xml''],
     [''RDTE'', ''FY26 Space Force Research and Development Test and Evaluation Vol II'', ''xml'']]"

definition DW_FILES :: "string list list" where
  "DW_FILES =
    [[''O&M'', ''01_Operation_and_Maintenance/O_M_VOL_1_PART_1'', ''OM_Volume1_Part1'', ''json''],
     [''O&M'', ''01_Operation_and_Maintenance/O_M_VOL_1_PART_2'', ''OM_Volume1_Part_2'', ''json''],
     [''O&M'', ''01_Operation_and_Maintenance/O_M_VOL_2'', ''Volume_2'', ''json''],
     [''O&M_Agencies'', ''01_Operation_and_Maintenance/O_M_VOL_1_PART_1'', ''Overview_(Part_1)'', ''json''],
     [''O&M_Agencies'', ''01_Operation_and_Maintenance/O_M_VOL_1_PART_1'', ''Summary_by_Agency_(Part_1)'', ''json''],
     [''O&M_Agencies'', ''01_Operation_and_Maintenance/O_M_VOL_1_PART_1'', ''O-1_Summary_(Part_1)'', ''json''],
     [''O&M_Agencies'', ''01_Operation_and_Maintenance/O_M_VOL_1_PART_1'', ''OP-32A_Summary_(Part_1)'', ''json''],
     [''O&M_Agencies'', ''01_Operation_and_Maintenance/O_M_VOL_1_PART_1'', ''CMP_OP-5'', ''json''],
     [''O&M_Agencies'', ''01_Operation_and_Maintenance/O_M_VOL_1_PART_1'', ''CYBERCOM_OP-5'', ''json''],
     [''O&M_Agencies'', ''01_Operation_and_Maintenance/O_M_VOL_1_PART_1'', ''CYBERCOM_Headquarters_OP-5'', ''json''],
     [''O&M_Agencies'', ''01_Operation_and_Maintenance/O_M_VOL_1_PART_1'', ''Cyberspace_Operations_OP-5'', ''json''],
     [''O&M_Agencies'', ''01_Operation_and_Maintenance/O_M_VOL_1_PART_1'', ''DAU_OP-5'', ''json''],
     [''O&M_Agencies'', ''01_Operation_and_Maintenance/O_M_VOL_1_PART_1'', ''DCAA_Cyber_OP-5'', ''json''],
     [''O&M_Agencies'', ''01_Operation_and_Maintenance/O_M_VOL_1_PART_1'', ''DCAA_OP-5'', ''json''],
     [''O&M_Agencies'', ''01_Operation_and_Maintenance/O_M_VOL_1_PART_1'', ''DCMA_Cyber_OP-5'', ''json''],
     [''O&M_Agencies'', ''01_Operation_and_Maintenance/O_M_VOL_1_PART_1'', ''DCMA_OP-5'', ''json''],
     [''O&M_Agencies'', ''01_Operation_and_Maintenance/O_M_VOL_1_PART_1'', ''DCSA_Cyber_OP-5'', ''json''],
     [''O&M_Agencies'', ''01_Operation_and_Maintenance/O_M_VOL_1_PART_1'', ''DCSA_OP-5'', ''json''],
     [''O&M_Agencies'', ''01_Operation_and_Maintenance/O_M_VOL_1_PART_1'', ''DHRA_Cyber_OP-5'', ''json''],
     [''O&M_Agencies'', ''01_Operation_and_Maintenance/O_M_VOL_1_PART_1'', ''DHRA_OP-5'', ''json''],
     [''O&M_Agencies'', ''01_Operation_and_Maintenance/O_M_VOL_1_PART_1'', ''DISA_Cyber_OP-5'', ''json''],
     [''O&M_Agencies'', ''01_Operation_and_Maintenance/O_M_VOL_1_PART_1'', ''DISA_OP-5'', ''json''],
     [''O&M_Agencies'', ''01_Operation_and_Maintenance/O_M_VOL_1_PART_1'', ''DLA_OP-5'', ''json''],
     [''O&M_Agencies'', ''01_Operation_and_Maintenance/O_M_VOL_1_PART_1'', ''DLSA_OP-5'', ''json''],
     [''BRAC'', ''05_BRAC'', ''FY2026_BRAC_Overview'', ''xml'']]"

definition DOD_SUMMARY :: "string list list" where
  "DOD_SUMMARY =
    [[''https://comptroller.war.gov/Portals/45/Documents/defbudget/FY2026/m1_display.xlsx'', ''DoD_Summary'', ''FY2026_M1_Military_Personnel.xlsx''],
     [''https://comptroller.war.gov/Portals/45/Documents/defbudget/FY2026/o1_display.xlsx'', ''DoD_Summary'', ''FY2026_O1_Operation_Maintenance.xlsx''],
     [''https://comptroller.war.gov/Portals/45/Documents/defbudget/FY2026/rf1_display.xlsx'', ''DoD_Summary'', ''FY2026_RF1_Revolving_Management_Fund.xlsx''],
     [''https://comptroller.war.gov/Portals/45/Documents/defbudget/FY2026/p1_display.xlsx'', ''DoD_Summary'', ''FY2026_P1_Procurement.xlsx''],
     [''https://comptroller.war.gov/Portals/45/Documents/defbudget/FY2026/p1r_display.xlsx'', ''DoD_Summary'', ''FY2026_P1R_Procurement_Reserve.xlsx''],
     [''https://comptroller.war.gov/Portals/45/Documents/defbudget/FY2026/r1_display.xlsx'', ''DoD_Summary'', ''FY2026_R1_RDTE.xlsx''],
     [''https://comptroller.war.gov/Portals/45/Documents/defbudget/FY2026/c1.xlsx'', ''DoD_Summary'', ''FY2026_C1_MilCon_FamilyHousing_BRAC.xlsx''],
     [''https://comptroller.war.gov/Portals/45/Documents/defbudget/FY2026/FY2026_Pacific_Deterrence_Initiative.json'', ''DoD_Summary'', ''FY2026_Pacific_Deterrence_Initiative.json''],
     [''https://comptroller.war.gov/Portals/45/Documents/defbudget/FY2026/FY2026_Drug_Interdiction_and_Counter-Drug_Activities.json'', ''DoD_Summary'', ''FY2026_Drug_Interdiction_Counter_Drug.json'']]"

record manifest =
  army :: "string list list"
  af :: "string list list"
  dw :: "string list list"
  dod :: "string list list"

definition MANIFEST :: manifest where
  "MANIFEST = \<lparr>army = ARMY_FILES, af = AF_FILES, dw = DW_FILES, dod = DOD_SUMMARY\<rparr>"

section \<open>main\<close>

text \<open>
  A statement of \<open>main\<close> takes the state to a new state, or stops the run with the
  exception that leaves it (\<open>Some e\<close>). \<open>for_each\<close> is the \<open>for\<close> loop; a block of
  statements is a \<open>for_each\<close> over the list of its statements.
\<close>

fun for_each :: "('a \<Rightarrow> 's \<Rightarrow> exn option \<times> 's) \<Rightarrow> 'a list \<Rightarrow> 's \<Rightarrow> exn option \<times> 's" where
  "for_each body [] s = (None, s)"
| "for_each body (x # xs) s =
     (case body x s of
        (Some e, s') \<Rightarrow> (Some e, s')
      | (None, s') \<Rightarrow> for_each body xs s')"

definition block :: "('s \<Rightarrow> exn option \<times> 's) list \<Rightarrow> 's \<Rightarrow> exn option \<times> 's" where
  "block stmts s = for_each (\<lambda>stmt. stmt) stmts s"

definition print :: "string \<Rightarrow> world \<Rightarrow> world" where
  "print line w = emit (Print line) w"

text \<open>
  \<^verbatim>\<open>
  def print_result(label, ok, msg):
      status = "OK" if ok else "FAIL"
      print(f"  [{status:4s}]  {label[:72]:<72}  {msg}")
  \<close>
\<close>

definition print_result :: "string \<Rightarrow> bool \<Rightarrow> string \<Rightarrow> world \<Rightarrow> world" where
  "print_result label ok msg w =
     (let status = (if ok then ''OK'' else ''FAIL'')
      in print (''  ['' @ ljust 4 status @ '']  '' @ ljust 72 (take 72 label) @ ''  '' @ msg) w)"

record tally =
  success_count :: nat
  fail_count :: nat
  failures :: "(string \<times> string \<times> string) list"

text \<open>
  The \<open>ValueError\<close> of unpacking a tuple of the wrong length in a \<open>for\<close> header (the
  wording of CPython 3.8 to 3.13).
\<close>

definition unpack_error :: "nat \<Rightarrow> nat \<Rightarrow> exn" where
  "unpack_error expected got =
     \<lparr>exn_class = Exception, exn_code = 0, exn_reason = [],
      exn_str =
        (if got < expected
         then ''not enough values to unpack (expected '' @ show_nat expected @
              '', got '' @ show_nat got @ '')''
         else ''too many values to unpack (expected '' @ show_nat expected @ '')'')\<rparr>"

text \<open>
  What each loop computes from its entry before and after the call: the label, the URL
  and the output path.
  \<^verbatim>\<open>
  for category, filename, ext in ARMY_FILES:
      encoded = urllib.parse.quote(f"{category}/{filename}.{ext}")
      url = f"{ARMY_BASE}/{encoded}"
      out_path = os.path.join(OUTPUT_DIR, "Army", safe_filename(category),
                              safe_filename(filename) + "." + ext)
      ...
      label = f"Army/{category}/{filename}.{ext}"
  \<close>
\<close>

type_synonym target = "string \<times> string \<times> string"

fun army_target :: "string list \<Rightarrow> exn + target" where
  "army_target [category, filename, ext] =
     (let encoded = quote (category @ ''/'' @ filename @ ''.'' @ ext);
          url = ARMY_BASE @ ''/'' @ encoded;
          out_path = path_join OUTPUT_DIR
                       [''Army'', safe_filename category, safe_filename filename @ ''.'' @ ext];
          label = ''Army/'' @ category @ ''/'' @ filename @ ''.'' @ ext
      in Inr (label, url, out_path))"
| "army_target item = Inl (unpack_error 3 (length item))"

text \<open>
  \<^verbatim>\<open>
  for category, filename, ext in AF_FILES:
      encoded_name = urllib.parse.quote(f"{filename}.{ext}")
      url = f"{AF_BASE}/{encoded_name}"
      out_path = os.path.join(OUTPUT_DIR, "AirForce", safe_filename(category),
                              safe_filename(filename) + "." + ext)
      ...
      label = f"AF/{category}/{filename}.{ext}"
  \<close>
\<close>

fun af_target :: "string list \<Rightarrow> exn + target" where
  "af_target [category, filename, ext] =
     (let encoded_name = quote (filename @ ''.'' @ ext);
          url = AF_BASE @ ''/'' @ encoded_name;
          out_path = path_join OUTPUT_DIR
                       [''AirForce'', safe_filename category, safe_filename filename @ ''.'' @ ext];
          label = ''AF/'' @ category @ ''/'' @ filename @ ''.'' @ ext
      in Inr (label, url, out_path))"
| "af_target item = Inl (unpack_error 3 (length item))"

text \<open>
  \<^verbatim>\<open>
  for item in DW_FILES:
      category, path, filename, ext = item
      url = f"{DW_BASE}/{path}/{filename}.{ext}"
      out_path = os.path.join(OUTPUT_DIR, "DefenseWide", safe_filename(category),
                              safe_filename(filename) + "." + ext)
      ...
      label = f"DW/{category}/{filename}.{ext}"
  \<close>
\<close>

fun dw_target :: "string list \<Rightarrow> exn + target" where
  "dw_target [category, path, filename, ext] =
     (let url = DW_BASE @ ''/'' @ path @ ''/'' @ filename @ ''.'' @ ext;
          out_path = path_join OUTPUT_DIR
                       [''DefenseWide'', safe_filename category, safe_filename filename @ ''.'' @ ext];
          label = ''DW/'' @ category @ ''/'' @ filename @ ''.'' @ ext
      in Inr (label, url, out_path))"
| "dw_target item = Inl (unpack_error 4 (length item))"

text \<open>
  \<^verbatim>\<open>
  for url, subfolder, fname in DOD_SUMMARY:
      out_path = os.path.join(OUTPUT_DIR, subfolder, fname)
      ...
      print_result(fname, ok, msg)      # fname is the label
  \<close>
\<close>

fun dod_target :: "string list \<Rightarrow> exn + target" where
  "dod_target [url, subfolder, fname] =
     (let out_path = path_join OUTPUT_DIR [subfolder, fname]
      in Inr (fname, url, out_path))"
| "dod_target item = Inl (unpack_error 3 (length item))"

text \<open>
  The statements every loop body shares:
  \<^verbatim>\<open>
  ok, msg = download_file(url, out_path)
  print_result(label, ok, msg)
  if ok:
      success_count += 1
  else:
      fail_count += 1
      failures.append((label, url, msg))
  time.sleep(0.3)
  \<close>
  The outcomes of the call are those the environment gives for the number of calls
  made so far.
\<close>

definition attempt :: "env \<Rightarrow> target \<Rightarrow> tally \<times> world \<Rightarrow> exn option \<times> tally \<times> world" where
  "attempt env tg s =
     (case tg of (label, url, out_path) \<Rightarrow>
      case s of (t, w) \<Rightarrow>
       (case download_file (env (ncalls w) url out_path) url out_path w of
          (Inl e, w1) \<Rightarrow> (Some e, t, w1)
        | (Inr (ok, msg), w1) \<Rightarrow>
           (let w2 = print_result label ok msg w1;
                t' = (if ok then t\<lparr>success_count := success_count t + 1\<rparr>
                      else t\<lparr>fail_count := fail_count t + 1,
                             failures := failures t @ [(label, url, msg)]\<rparr>)
            in (None, t', emit (Sleep (3 / 10)) w2))))"

definition loop_body ::
  "(string list \<Rightarrow> exn + target) \<Rightarrow> env \<Rightarrow> string list \<Rightarrow> tally \<times> world \<Rightarrow> exn option \<times> tally \<times> world" where
  "loop_body target env item s =
     (case target item of
        Inl e \<Rightarrow> (Some e, s)
      | Inr tg \<Rightarrow> attempt env tg s)"

definition say :: "string \<Rightarrow> tally \<times> world \<Rightarrow> exn option \<times> tally \<times> world" where
  "say line s = (case s of (t, w) \<Rightarrow> (None, t, print line w))"

text \<open>
  The four loops, each after the line that announces it:
  \<^verbatim>\<open>
  print(f"\n[1/4] Army ({len(ARMY_FILES)} files)...")
  for category, filename, ext in ARMY_FILES: ...
  \<close>
\<close>

definition downloads :: "manifest \<Rightarrow> env \<Rightarrow> tally \<times> world \<Rightarrow> exn option \<times> tally \<times> world" where
  "downloads m env =
     block
       [say ([CHR 0x0A] @ ''[1/4] Army ('' @ show_nat (length (army m)) @ '' files)...''),
        for_each (loop_body army_target env) (army m),
        say ([CHR 0x0A] @ ''[2/4] Air Force & Space Force ('' @ show_nat (length (af m)) @
             '' files)...''),
        for_each (loop_body af_target env) (af m),
        say ([CHR 0x0A] @ ''[3/4] Defense-Wide ('' @ show_nat (length (dw m)) @ '' files)...''),
        for_each (loop_body dw_target env) (dw m),
        say ([CHR 0x0A] @ ''[4/4] DoD Summary ('' @ show_nat (length (dod m)) @ '' files)...''),
        for_each (loop_body dod_target env) (dod m)]"

text \<open>
  The five lines \<open>main\<close> prints first; the dash of the second line is U+2014, three
  bytes in UTF-8.
\<close>

definition banner :: "string list" where
  "banner =
     [replicate 80 (CHR ''=''),
      ''FY2026 DoD Budget '' @ [CHR 0xE2, CHR 0x80, CHR 0x94] @
        '' Machine-Readable File Downloader'',
      ''Covers: Army, Air Force, Space Force, Defense-Wide, DoD Summary'',
      ''Note:   Navy is PDF-only and not included'',
      replicate 80 (CHR ''='')]"

text \<open>
  The lines of the final report. \<open>os.path.abspath(OUTPUT_DIR)\<close> is the working
  directory \<open>cwd\<close> (absolute and normalised, as \<open>os.getcwd()\<close> gives it) joined with
  the relative name.
  \<^verbatim>\<open>
  total = success_count + fail_count
  print("\n" + "=" * 80)
  print(f"Done. {success_count}/{total} files downloaded.")
  print(f"Output directory: {os.path.abspath(OUTPUT_DIR)}/")
  if failures:
      print(f"\nFailed ({fail_count}):")
      for label, url, msg in failures:
          print(f"  FAIL  {label}")
          print(f"        URL: {url}")
          print(f"        Reason: {msg}")
  else:
      print("\nAll files downloaded successfully!")
  \<close>
\<close>

definition failure_lines :: "string \<times> string \<times> string \<Rightarrow> string list" where
  "failure_lines f =
     (case f of (label, url, msg) \<Rightarrow>
        [''  FAIL  '' @ label, ''        URL: '' @ url, ''        Reason: '' @ msg])"

definition report_lines :: "string \<Rightarrow> tally \<Rightarrow> string list" where
  "report_lines cwd t =
     (let total = success_count t + fail_count t
      in [[CHR 0x0A] @ replicate 80 (CHR ''=''),
          ''Done. '' @ show_nat (success_count t) @ ''/'' @ show_nat total @
            '' files downloaded.'',
          ''Output directory: '' @ path_join cwd [OUTPUT_DIR] @ ''/'']
         @ (if failures t \<noteq> []
            then ([CHR 0x0A] @ ''Failed ('' @ show_nat (fail_count t) @ ''):'')
                 # concat (map failure_lines (failures t))
            else [[CHR 0x0A] @ ''All files downloaded successfully!'']))"

definition main_with :: "manifest \<Rightarrow> env \<Rightarrow> string \<Rightarrow> world \<Rightarrow> exn option \<times> tally \<times> world" where
  "main_with m env cwd w =
     block
       [for_each say banner,
        (\<lambda>s. case s of (t, w) \<Rightarrow>
               (None, \<lparr>success_count = 0, fail_count = 0, failures = []\<rparr>, w)),
        downloads m env,
        (\<lambda>s. case s of (t, w) \<Rightarrow> for_each say (report_lines cwd t) s)]
       (\<lparr>success_count = 0, fail_count = 0, failures = []\<rparr>, w)"

definition main :: "env \<Rightarrow> string \<Rightarrow> world \<Rightarrow> exn option \<times> tally \<times> world" where
  "main env cwd w = main_with MANIFEST env cwd w"

section \<open>Observations on a run\<close>

text \<open>The world when the \<open>try\<close> block of \<open>download_file\<close> is entered.\<close>

definition before_try :: "string \<Rightarrow> string \<Rightarrow> world \<Rightarrow> world" where
  "before_try url dest_path w =
     emit (Makedirs (dirname dest_path))
       (emit (Call url dest_path) (w\<lparr>ncalls := ncalls w + 1\<rparr>))"

text \<open>The events of \<open>w'\<close> that came after those of \<open>w\<close>.\<close>

definition since :: "world \<Rightarrow> world \<Rightarrow> event list" where
  "since w w' = drop (length (events w)) (events w')"

text \<open>The invocations of \<open>download_file\<close> in a list of events, as (URL, path) pairs.\<close>

fun call_of :: "event \<Rightarrow> (string \<times> string) list" where
  "call_of (Call url dest_path) = [(url, dest_path)]"
| "call_of ev = []"

definition calls :: "event list \<Rightarrow> (string \<times> string) list" where
  "calls evs = concat (map call_of evs)"

text \<open>The invocations and the sleeps of a list of events, in order.\<close>

fun is_pacing :: "event \<Rightarrow> bool" where
  "is_pacing (Call url dest_path) = True"
| "is_pacing (Sleep d) = True"
| "is_pacing ev = False"

definition pacing :: "event list \<Rightarrow> event list" where
  "pacing evs = filter is_pacing evs"

text \<open>
  A list of invocations and sleeps is paced when every invocation but possibly the last
  event is directly followed by a sleep of 0.3 seconds, and every sleep directly follows
  an invocation.
\<close>

fun paced :: "event list \<Rightarrow> bool" where
  "paced [] = True"
| "paced [Call url dest_path] = True"
| "paced (Call url dest_path # Sleep d # evs) = (d = 3 / 10 \<and> paced evs)"
| "paced evs = False"

definition attempt_pacing :: "string \<times> string \<Rightarrow> event list" where
  "attempt_pacing c = [Call (fst c) (snd c), Sleep (3 / 10)]"


text \<open>
  An environment in which nothing is raised before the \<open>try\<close> block of
  \<open>download_file\<close>.
\<close>

definition no_escape :: "env \<Rightarrow> bool" where
  "no_escape env =
     (\<forall>n url dest_path. makedirs_exn (env n url dest_path) = None
                       \<and> Request_exn (env n url dest_path) = None)"

text \<open>The tuple lengths the four loops unpack.\<close>

definition well_shaped :: "manifest \<Rightarrow> bool" where
  "well_shaped m =
     (list_all (\<lambda>item. length item = 3) (army m) \<and> list_all (\<lambda>item. length item = 3) (af m)
      \<and> list_all (\<lambda>item. length item = 4) (dw m) \<and> list_all (\<lambda>item. length item = 3) (dod m))"


text \<open>The (label, URL, path) triples of a manifest, in the order in which \<open>main\<close> reaches them.\<close>

fun rights :: "('a + 'b) list \<Rightarrow> 'b list" where
  "rights [] = []"
| "rights (Inl a # xs) = rights xs"
| "rights (Inr b # xs) = b # rights xs"

definition targets :: "manifest \<Rightarrow> target list" where
  "targets m =
     rights (map army_target (army m) @ map af_target (af m)
             @ map dw_target (dw m) @ map dod_target (dod m))"

definition url_path :: "target \<Rightarrow> string \<times> string" where
  "url_path tg = (case tg of (label, url, out_path) \<Rightarrow> (url, out_path))"

text \<open>
  The components of a path (\<open>p.split('/')\<close>), and what it is for a relative path to lie
  strictly inside the directory \<open>base\<close>: the first component is \<open>base\<close>, at least one
  more follows, and none of those is empty, \<open>.\<close> or \<open>..\<close>.
\<close>

fun split_sep :: "string \<Rightarrow> string list" where
  "split_sep [] = [[]]"
| "split_sep (c # cs) =
     (case split_sep cs of
        [] \<Rightarrow> [[c]]
      | x # xs \<Rightarrow> if c = CHR ''/'' then [] # x # xs else (c # x) # xs)"

definition inside :: "string \<Rightarrow> string \<Rightarrow> bool" where
  "inside base p =
     (case split_sep p of
        [] \<Rightarrow> False
      | r # cs \<Rightarrow> r = base \<and> cs \<noteq> [] \<and> list_all (\<lambda>c. c \<noteq> [] \<and> c \<noteq> ''.'' \<and> c \<noteq> ''..'') cs)"

section \<open>The run as a flat list of steps\<close>

text \<open>
  For a manifest whose tuples have the lengths the loops unpack, the four announced
  loops do what a single loop does over this list of steps: an announcement, or the
  shared body of the loops for one (label, URL, path) triple.
\<close>

datatype step = Announce string | Fetch target

fun run_step :: "env \<Rightarrow> step \<Rightarrow> tally \<times> world \<Rightarrow> exn option \<times> tally \<times> world" where
  "run_step env (Announce line) s = say line s"
| "run_step env (Fetch tg) s = attempt env tg s"

fun fetched :: "step list \<Rightarrow> target list" where
  "fetched [] = []"
| "fetched (Announce line # sts) = fetched sts"
| "fetched (Fetch tg # sts) = tg # fetched sts"

definition steps :: "manifest \<Rightarrow> step list" where
  "steps m =
     Announce ([CHR 0x0A] @ ''[1/4] Army ('' @ show_nat (length (army m)) @ '' files)...'')
       # map Fetch (rights (map army_target (army m)))
     @ Announce ([CHR 0x0A] @ ''[2/4] Air Force & Space Force ('' @ show_nat (length (af m)) @
             '' files)...'')
       # map Fetch (rights (map af_target (af m)))
     @ Announce ([CHR 0x0A] @ ''[3/4] Defense-Wide ('' @ show_nat (length (dw m)) @ '' files)...'')
       # map Fetch (rights (map dw_target (dw m)))
     @ Announce ([CHR 0x0A] @ ''[4/4] DoD Summary ('' @ show_nat (length (dod m)) @ '' files)...'')
       # map Fetch (rights (map dod_target (dod m)))"



section \<open>Example values\<close>

definition init_world :: world where
  "init_world = \<lparr>files = Map.empty, events = [], ncalls = 0\<rparr>"

definition all_ok :: "bytes \<Rightarrow> outcomes" where
  "all_ok data =
     \<lparr>makedirs_exn = None, Request_exn = None, urlopen_exn = None,
      read_result = Inr data, open_exn = None, write_exn = None\<rparr>"

definition http_404 :: exn where
  "http_404 =
     \<lparr>exn_class = HTTPError, exn_code = 404, exn_reason = ''Not Found'',
      exn_str = ''HTTP Error 404: Not Found''\<rparr>"


text \<open>The environment that answers every call with the same outcomes.\<close>

definition always :: "outcomes \<Rightarrow> env" where
  "always oc = (\<lambda>n url dest_path. oc)"





section \<open>Properties of safe_filename\<close>

lemma safe_filename_map:
  "safe_filename s = map (\<lambda>c. if c \<in> set ILLEGAL then CHR ''_'' else c) s"
  by (induction s) (simp_all add: safe_filename_def replace_char_def ILLEGAL_def)

lemma underscore_legal: "CHR ''_'' \<notin> set ILLEGAL"
  by (simp add: ILLEGAL_def)

text \<open>
  Claim C8. For every string \<open>s\<close>, \<open>safe_filename s\<close> contains none of the nine
  characters \<^verbatim>\<open>\ / : * ? " < > |\<close>, has the length of \<open>s\<close>, keeps every character
  of \<open>s\<close> that is outside that set at its position, and applying it twice is the same
  as applying it once.
\<close>

theorem safe_filename_spec:
  "set (safe_filename s) \<inter> set ILLEGAL = {}
   \<and> length (safe_filename s) = length s
   \<and> (\<forall>i < length s. s ! i \<notin> set ILLEGAL \<longrightarrow> safe_filename s ! i = s ! i)
   \<and> safe_filename (safe_filename s) = safe_filename s"
proof -
  have none: "set (safe_filename s) \<inter> set ILLEGAL = {}"
    using underscore_legal by (auto simp: safe_filename_map)
  have len: "length (safe_filename s) = length s"
    by (simp add: safe_filename_map)
  have keep: "\<forall>i < length s. s ! i \<notin> set ILLEGAL \<longrightarrow> safe_filename s ! i = s ! i"
    by (simp add: safe_filename_map)
  have idem: "safe_filename (safe_filename s) = safe_filename s"
    using underscore_legal by (simp add: safe_filename_map)
  from none len keep idem show ?thesis by blast
qed

theorem safe_filename_spec_witness:
  "safe_filename ''a/b:c'' = ''a_b_c''
   \<and> set (safe_filename ''a/b:c'') \<inter> set ILLEGAL = {}
   \<and> (0::nat) < length ''a/b:c'' \<and> ''a/b:c'' ! 0 \<notin> set ILLEGAL
   \<and> safe_filename ''a/b:c'' ! 0 = ''a/b:c'' ! 0
   \<and> safe_filename (safe_filename ''a/b:c'') = safe_filename ''a/b:c''"
proof -
  have ev: "safe_filename ''a/b:c'' = ''a_b_c''"
    by (simp add: safe_filename_def replace_char_def ILLEGAL_def)
  have legal: "''a/b:c'' ! 0 \<notin> set ILLEGAL"
    by (simp add: ILLEGAL_def)
  from safe_filename_spec [of "''a/b:c''"] ev legal show ?thesis
    by simp
qed

section \<open>Properties of download_file\<close>


lemma except_clauses_returns: "\<exists>msg. except_clauses e = Inr (False, msg)"
  by (cases "exn_class e") (simp_all add: except_clauses_def EXCEPT_CLAUSES_def isinstance_def)

lemma try_block_Inr:
  "fst (try_block oc url dest_path w) = Inr msg \<longleftrightarrow>
     urlopen_exn oc = None \<and> open_exn oc = None \<and> write_exn oc = None
     \<and> (\<exists>data. read_result oc = Inr data \<and> msg = size_message (length data))"
  by (auto simp: try_block_def Let_def split: option.splits sum.splits prod.splits)

lemma download_file_unfold:
  "download_file oc url dest_path w =
     (case makedirs_exn oc of
        Some e \<Rightarrow> (Inl e, before_try url dest_path w)
      | None \<Rightarrow>
         (case Request_exn oc of
            Some e \<Rightarrow> (Inl e, before_try url dest_path w)
          | None \<Rightarrow>
             (case try_block oc url dest_path (before_try url dest_path w) of
                (Inr msg, w2) \<Rightarrow> (Inr (True, msg), w2)
              | (Inl e, w2) \<Rightarrow> (except_clauses e, w2))))"
  unfolding download_file_def before_try_def Let_def by (rule refl)

lemma download_file_True:
  "fst (download_file oc url dest_path w) = Inr (True, msg) \<longleftrightarrow>
     makedirs_exn oc = None \<and> Request_exn oc = None
     \<and> urlopen_exn oc = None \<and> open_exn oc = None \<and> write_exn oc = None
     \<and> (\<exists>data. read_result oc = Inr data \<and> msg = size_message (length data))"
proof -
  obtain r w2 where tb: "try_block oc url dest_path (before_try url dest_path w) = (r, w2)"
    by (cases "try_block oc url dest_path (before_try url dest_path w)")
  have r: "r = Inr msg \<longleftrightarrow> urlopen_exn oc = None \<and> open_exn oc = None \<and> write_exn oc = None
     \<and> (\<exists>data. read_result oc = Inr data \<and> msg = size_message (length data))"
    using try_block_Inr [of oc url dest_path "before_try url dest_path w" msg] tb by simp
  show ?thesis
  proof (cases r)
    case (Inl e)
    with except_clauses_returns [of e] tb r show ?thesis
      by (auto simp: download_file_unfold split: option.splits)
  next
    case (Inr m)
    with tb r show ?thesis
      by (auto simp: download_file_unfold split: option.splits)
  qed
qed

lemma download_file_returns:
  assumes "makedirs_exn oc = None" "Request_exn oc = None"
  shows "\<exists>ok msg. fst (download_file oc url dest_path w) = Inr (ok, msg)"
proof -
  obtain r w2 where tb: "try_block oc url dest_path (before_try url dest_path w) = (r, w2)"
    by (cases "try_block oc url dest_path (before_try url dest_path w)")
  show ?thesis
  proof (cases r)
    case (Inl e)
    with except_clauses_returns [of e] tb assms show ?thesis
      by (auto simp: download_file_unfold)
  next
    case (Inr m)
    with tb assms show ?thesis
      by (auto simp: download_file_unfold)
  qed
qed

lemma download_file_caught:
  assumes "makedirs_exn oc = None" "Request_exn oc = None"
    and "fst (try_block oc url dest_path (before_try url dest_path w)) = Inl e"
  shows "fst (download_file oc url dest_path w) = except_clauses e"
  using assms by (auto simp: download_file_unfold split: prod.splits sum.splits)

lemma download_file_escapes:
  "(\<exists>e. fst (download_file oc url dest_path w) = Inl e) \<longleftrightarrow>
     makedirs_exn oc \<noteq> None \<or> Request_exn oc \<noteq> None"
proof (cases "makedirs_exn oc = None \<and> Request_exn oc = None")
  case True
  with download_file_returns [of oc url dest_path w] show ?thesis by auto
next
  case False
  then show ?thesis by (auto simp: download_file_unfold split: option.splits)
qed





lemma before_try_files: "files (before_try url dest_path w) = files w"
  by (simp add: before_try_def emit_def)

lemma before_try_events:
  "events (before_try url dest_path w) =
     events w @ [Call url dest_path, Makedirs (dirname dest_path)]"
  by (simp add: before_try_def emit_def)

lemma before_try_ncalls: "ncalls (before_try url dest_path w) = Suc (ncalls w)"
  by (simp add: before_try_def emit_def)

lemma since_append: "events w' = events w @ es \<Longrightarrow> since w w' = es"
  by (simp add: since_def)

lemma try_block_success:
  assumes "fst (try_block oc url dest_path w) = Inr msg"
  shows "\<exists>data. read_result oc = Inr data
           \<and> files (snd (try_block oc url dest_path w)) = (files w)(dest_path \<mapsto> data)
           \<and> events (snd (try_block oc url dest_path w)) =
               events w @ [Urlopen url HEADERS 120, OpenWb dest_path, Write dest_path data]"
  using assms
  by (auto simp: try_block_def Let_def emit_def split: option.splits sum.splits prod.splits)

lemma try_block_ncalls: "ncalls (snd (try_block oc url dest_path w)) = ncalls w"
  by (auto simp: try_block_def Let_def emit_def split: option.splits sum.splits prod.splits)

text \<open>The events of the \<open>try\<close> block: the request, then at most an open and a write.\<close>

lemma try_block_events:
  "\<exists>es. events (snd (try_block oc url dest_path w)) = events w @ Urlopen url HEADERS 120 # es
        \<and> set es \<subseteq> {OpenWb dest_path} \<union> {Write dest_path data | data. read_result oc = Inr data}
        \<and> (es \<noteq> [] \<longrightarrow> urlopen_exn oc = None \<and> (\<exists>data. read_result oc = Inr data))"
  by (auto simp: try_block_def Let_def emit_def split: option.splits sum.splits prod.splits)

lemma try_block_request_fails:
  assumes "urlopen_exn oc \<noteq> None \<or> isl (read_result oc)"
  shows "files (snd (try_block oc url dest_path w)) = files w
         \<and> events (snd (try_block oc url dest_path w)) = events w @ [Urlopen url HEADERS 120]
         \<and> isl (fst (try_block oc url dest_path w))"
  using assms
  by (auto simp: try_block_def Let_def emit_def split: option.splits sum.splits prod.splits)

lemma try_block_other_files:
  "p \<noteq> dest_path \<Longrightarrow> files (snd (try_block oc url dest_path w)) p = files w p"
  by (auto simp: try_block_def Let_def emit_def split: option.splits sum.splits prod.splits)

lemma download_file_snd:
  "snd (download_file oc url dest_path w) =
     (if makedirs_exn oc = None \<and> Request_exn oc = None
      then snd (try_block oc url dest_path (before_try url dest_path w))
      else before_try url dest_path w)"
  by (auto simp: download_file_unfold split: option.splits prod.splits sum.splits)

text \<open>
  Claim C2. When \<open>download_file\<close> returns success, the bytes stored at \<open>dest_path\<close> are
  exactly the bytes read from the response body, no other file has changed, and the one
  write of the call carries those bytes.
\<close>

theorem download_file_verbatim:
  assumes "fst (download_file oc url dest_path w) = Inr (True, msg)"
  shows "\<exists>data. read_result oc = Inr data
           \<and> files (snd (download_file oc url dest_path w)) = (files w)(dest_path \<mapsto> data)
           \<and> since w (snd (download_file oc url dest_path w)) =
               [Call url dest_path, Makedirs (dirname dest_path),
                Urlopen url HEADERS 120, OpenWb dest_path, Write dest_path data]"
proof -
  from assms have ok: "makedirs_exn oc = None" "Request_exn oc = None"
      "urlopen_exn oc = None" "open_exn oc = None" "write_exn oc = None"
    and "\<exists>data. read_result oc = Inr data \<and> msg = size_message (length data)"
    by (simp_all add: download_file_True)
  then obtain data where data: "read_result oc = Inr data" "msg = size_message (length data)"
    by blast
  have "fst (try_block oc url dest_path (before_try url dest_path w)) = Inr msg"
    using ok data by (simp add: try_block_Inr)
  from try_block_success [OF this] data(1)
  have f: "files (snd (try_block oc url dest_path (before_try url dest_path w)))
             = (files w)(dest_path \<mapsto> data)"
    and e: "events (snd (try_block oc url dest_path (before_try url dest_path w))) =
             events w @ [Call url dest_path, Makedirs (dirname dest_path),
                Urlopen url HEADERS 120, OpenWb dest_path, Write dest_path data]"
    by (auto simp: before_try_files before_try_events)
  from ok f since_append [OF e] data(1) show ?thesis
    by (simp add: download_file_snd)
qed

theorem download_file_verbatim_witness:
  "fst (download_file (all_ok [1, 2, 3]) ''u'' ''d/f'' init_world) = Inr (True, ''0.0 KB'')
   \<and> files (snd (download_file (all_ok [1, 2, 3]) ''u'' ''d/f'' init_world)) ''d/f''
       = Some [1, 2, 3]"
proof -
  have sz: "size_message (length [1, 2, 3 :: 8 word]) = ''0.0 KB''"
    by (simp add: size_message_def show_nat.simps)
  have r: "fst (download_file (all_ok [1, 2, 3]) ''u'' ''d/f'' init_world) = Inr (True, ''0.0 KB'')"
    using sz by (simp add: download_file_True all_ok_def)
  from download_file_verbatim [OF r] r show ?thesis
    by (simp add: all_ok_def)
qed

text \<open>
  Claim C9. Every call of \<open>download_file\<close> starts with \<open>os.makedirs\<close> on the parent
  directory, before any request. The file is opened only after \<open>urlopen\<close> and the read
  of the whole body have succeeded. So when the request or the read raises, no file
  has changed, the call has neither opened nor written a file, and, the calls before
  the \<open>try\<close> block having succeeded, the function returns \<open>(False, reason)\<close>.
\<close>

theorem download_file_order:
  "(\<exists>es. since w (snd (download_file oc url dest_path w)) =
           Call url dest_path # Makedirs (dirname dest_path) # es
         \<and> (\<forall>ev \<in> set es. \<exists>u h t p d. ev = Urlopen u h t \<or> ev = OpenWb p \<or> ev = Write p d))
   \<and> (OpenWb dest_path \<in> set (since w (snd (download_file oc url dest_path w))) \<longrightarrow>
        urlopen_exn oc = None \<and> (\<exists>data. read_result oc = Inr data))
   \<and> (urlopen_exn oc \<noteq> None \<or> isl (read_result oc) \<longrightarrow>
        files (snd (download_file oc url dest_path w)) = files w
        \<and> (\<forall>ev \<in> set (since w (snd (download_file oc url dest_path w))).
              \<forall>p d. ev \<noteq> OpenWb p \<and> ev \<noteq> Write p d)
        \<and> (makedirs_exn oc = None \<and> Request_exn oc = None \<longrightarrow>
              (\<exists>reason. fst (download_file oc url dest_path w) = Inr (False, reason))))"
proof -
  let ?w1 = "before_try url dest_path w"
  let ?w' = "snd (download_file oc url dest_path w)"
  obtain es where es: "events (snd (try_block oc url dest_path ?w1)) =
        events ?w1 @ Urlopen url HEADERS 120 # es"
      "set es \<subseteq> {OpenWb dest_path} \<union> {Write dest_path data | data. read_result oc = Inr data}"
      "es \<noteq> [] \<longrightarrow> urlopen_exn oc = None \<and> (\<exists>data. read_result oc = Inr data)"
    using try_block_events [of oc url dest_path ?w1] by blast
  have ev: "since w ?w' =
      Call url dest_path # Makedirs (dirname dest_path) #
        (if makedirs_exn oc = None \<and> Request_exn oc = None then Urlopen url HEADERS 120 # es else [])"
    by (rule since_append) (simp add: download_file_snd es(1) before_try_events)
  have first: "\<exists>es. since w ?w' = Call url dest_path # Makedirs (dirname dest_path) # es
         \<and> (\<forall>ev \<in> set es. \<exists>u h t p d. ev = Urlopen u h t \<or> ev = OpenWb p \<or> ev = Write p d)"
    using ev es(2) by (cases "makedirs_exn oc = None \<and> Request_exn oc = None") auto
  have opened: "OpenWb dest_path \<in> set (since w ?w') \<longrightarrow>
        urlopen_exn oc = None \<and> (\<exists>data. read_result oc = Inr data)"
    using ev es(3) by (cases "makedirs_exn oc = None \<and> Request_exn oc = None") auto
  have failing: "urlopen_exn oc \<noteq> None \<or> isl (read_result oc) \<longrightarrow>
        files ?w' = files w
        \<and> (\<forall>ev \<in> set (since w ?w'). \<forall>p d. ev \<noteq> OpenWb p \<and> ev \<noteq> Write p d)
        \<and> (makedirs_exn oc = None \<and> Request_exn oc = None \<longrightarrow>
              (\<exists>reason. fst (download_file oc url dest_path w) = Inr (False, reason)))"
  proof
    assume a: "urlopen_exn oc \<noteq> None \<or> isl (read_result oc)"
    from try_block_request_fails [OF a, of url dest_path ?w1]
    have tb: "files (snd (try_block oc url dest_path ?w1)) = files w"
        "events (snd (try_block oc url dest_path ?w1)) = events ?w1 @ [Urlopen url HEADERS 120]"
        "isl (fst (try_block oc url dest_path ?w1))"
      by (simp_all add: before_try_files)
    have f: "files ?w' = files w"
      using tb(1) by (simp add: download_file_snd before_try_files)
    have "es = []" using tb(2) es(1) by simp
    with ev have n: "\<forall>ev \<in> set (since w ?w'). \<forall>p d. ev \<noteq> OpenWb p \<and> ev \<noteq> Write p d"
      by auto
    have r: "makedirs_exn oc = None \<and> Request_exn oc = None \<longrightarrow>
              (\<exists>reason. fst (download_file oc url dest_path w) = Inr (False, reason))"
    proof
      assume b: "makedirs_exn oc = None \<and> Request_exn oc = None"
      from tb(3) obtain e where "fst (try_block oc url dest_path ?w1) = Inl e"
        by (cases "fst (try_block oc url dest_path ?w1)") auto
      with b download_file_caught [of oc url dest_path w e] except_clauses_returns [of e]
      show "\<exists>reason. fst (download_file oc url dest_path w) = Inr (False, reason)"
        by auto
    qed
    from f n r show "files ?w' = files w
        \<and> (\<forall>ev \<in> set (since w ?w'). \<forall>p d. ev \<noteq> OpenWb p \<and> ev \<noteq> Write p d)
        \<and> (makedirs_exn oc = None \<and> Request_exn oc = None \<longrightarrow>
              (\<exists>reason. fst (download_file oc url dest_path w) = Inr (False, reason)))"
      by blast
  qed
  from first opened failing show ?thesis by blast
qed

theorem download_file_order_witness:
  "urlopen_exn ((all_ok [1, 2, 3])\<lparr>urlopen_exn := Some http_404\<rparr>) \<noteq> None
   \<and> makedirs_exn ((all_ok [1, 2, 3])\<lparr>urlopen_exn := Some http_404\<rparr>) = None
   \<and> Request_exn ((all_ok [1, 2, 3])\<lparr>urlopen_exn := Some http_404\<rparr>) = None
   \<and> files (snd (download_file ((all_ok [1, 2, 3])\<lparr>urlopen_exn := Some http_404\<rparr>)
                  ''u'' ''d/f'' init_world)) = files init_world
   \<and> fst (download_file ((all_ok [1, 2, 3])\<lparr>urlopen_exn := Some http_404\<rparr>)
             ''u'' ''d/f'' init_world) = Inr (False, ''HTTP 404'')
   \<and> since init_world (snd (download_file ((all_ok [1, 2, 3])\<lparr>urlopen_exn := Some http_404\<rparr>)
                  ''u'' ''d/f'' init_world))
       = [Call ''u'' ''d/f'', Makedirs ''d'', Urlopen ''u'' HEADERS 120]
   \<and> OpenWb ''d/f'' \<in> set (since init_world
         (snd (download_file (all_ok [1, 2, 3]) ''u'' ''d/f'' init_world)))"
proof -
  let ?oc = "(all_ok [1, 2, 3])\<lparr>urlopen_exn := Some http_404\<rparr>"
  have ex: "except_clauses http_404 = Inr (False, ''HTTP 404'')"
    by (simp add: except_clauses_def EXCEPT_CLAUSES_def isinstance_def http_404_def
        show_int_def show_nat.simps)
  have r: "fst (download_file ?oc ''u'' ''d/f'' init_world) = Inr (False, ''HTTP 404'')"
    using ex by (simp add: download_file_unfold all_ok_def try_block_def Let_def)
  have d: "dirname ''d/f'' = ''d''"
    by (simp add: dirname_def rstrip_sep_def)
  have s: "since init_world (snd (download_file ?oc ''u'' ''d/f'' init_world))
       = [Call ''u'' ''d/f'', Makedirs ''d'', Urlopen ''u'' HEADERS 120]"
    using d by (simp add: download_file_snd all_ok_def try_block_def Let_def since_def
        before_try_def emit_def init_world_def)
  have o: "OpenWb ''d/f'' \<in> set (since init_world
         (snd (download_file (all_ok [1, 2, 3]) ''u'' ''d/f'' init_world)))"
    by (simp add: download_file_snd all_ok_def try_block_def Let_def since_def
        before_try_def emit_def init_world_def)
  from download_file_order [of init_world ?oc "''u''" "''d/f''"] r s o show ?thesis
    by (simp add: all_ok_def)
qed


section \<open>Loops and blocks\<close>

lemma for_each_append:
  "for_each body (xs @ ys) s =
     (case for_each body xs s of
        (Some e, s') \<Rightarrow> (Some e, s')
      | (None, s') \<Rightarrow> for_each body ys s')"
  by (induction xs arbitrary: s) (auto split: prod.splits option.splits)

lemma block_Nil: "block [] s = (None, s)"
  by (simp add: block_def)

lemma block_Cons:
  "block (stmt # stmts) s =
     (case stmt s of
        (Some e, s') \<Rightarrow> (Some e, s')
      | (None, s') \<Rightarrow> block stmts s')"
  unfolding block_def by simp

lemma rights_map_Inr:
  "list_all (\<lambda>x. \<not> isl (f x)) xs \<Longrightarrow> map Inr (rights (map f xs)) = map f xs"
proof (induction xs)
  case Nil
  then show ?case by simp
next
  case (Cons x xs)
  then obtain b where "f x = Inr b" by (cases "f x") auto
  with Cons show ?case by simp
qed

lemma loop_as_steps:
  "list_all (\<lambda>x. \<not> isl (tgt x)) items \<Longrightarrow>
     for_each (loop_body tgt env) items s =
     for_each (run_step env) (map Fetch (rights (map tgt items))) s"
proof (induction items arbitrary: s)
  case Nil
  then show ?case by simp
next
  case (Cons x xs)
  then obtain b where b: "tgt x = Inr b" by (cases "tgt x") auto
  with Cons show ?case
    by (auto simp: loop_body_def split: prod.splits option.splits)
qed

lemma length3: "length xs = 3 \<Longrightarrow> \<exists>a b c. xs = [a, b, c]"
  by (cases xs; cases "tl xs"; cases "tl (tl xs)") auto

lemma length4: "length xs = 4 \<Longrightarrow> \<exists>a b c d. xs = [a, b, c, d]"
  by (cases xs; cases "tl xs"; cases "tl (tl xs)"; cases "tl (tl (tl xs))") auto

lemma army_target_Inr: "length item = 3 \<Longrightarrow> \<not> isl (army_target item)"
  by (auto dest!: length3 simp: Let_def)

lemma af_target_Inr: "length item = 3 \<Longrightarrow> \<not> isl (af_target item)"
  by (auto dest!: length3 simp: Let_def)

lemma dw_target_Inr: "length item = 4 \<Longrightarrow> \<not> isl (dw_target item)"
  by (auto dest!: length4 simp: Let_def)

lemma dod_target_Inr: "length item = 3 \<Longrightarrow> \<not> isl (dod_target item)"
  by (auto dest!: length3 simp: Let_def)

lemma well_shaped_Inr:
  assumes "well_shaped m"
  shows "list_all (\<lambda>x. \<not> isl (army_target x)) (army m)"
    and "list_all (\<lambda>x. \<not> isl (af_target x)) (af m)"
    and "list_all (\<lambda>x. \<not> isl (dw_target x)) (dw m)"
    and "list_all (\<lambda>x. \<not> isl (dod_target x)) (dod m)"
  using assms
  by (auto simp: well_shaped_def list_all_iff army_target_Inr af_target_Inr dw_target_Inr
      dod_target_Inr)

lemma downloads_steps:
  assumes "well_shaped m"
  shows "downloads m env s = for_each (run_step env) (steps m) s"
  unfolding downloads_def steps_def
  by (simp add: block_Cons block_Nil for_each_append
      loop_as_steps [OF well_shaped_Inr(1) [OF assms]]
      loop_as_steps [OF well_shaped_Inr(2) [OF assms]]
      loop_as_steps [OF well_shaped_Inr(3) [OF assms]]
      loop_as_steps [OF well_shaped_Inr(4) [OF assms]]
      split: prod.splits option.splits)

lemma fetched_append: "fetched (xs @ ys) = fetched xs @ fetched ys"
  by (induction xs rule: fetched.induct) simp_all

lemma fetched_map_Fetch: "fetched (map Fetch tgs) = tgs"
  by (induction tgs) simp_all

lemma rights_append: "rights (xs @ ys) = rights xs @ rights ys"
  by (induction xs rule: rights.induct) simp_all

lemma fetched_steps: "fetched (steps m) = targets m"
  by (simp add: steps_def targets_def fetched_append fetched_map_Fetch rights_append)

section \<open>What one call and one loop body add to the world\<close>

lemma calls_append: "calls (xs @ ys) = calls xs @ calls ys"
  by (simp add: calls_def)

lemma pacing_append: "pacing (xs @ ys) = pacing xs @ pacing ys"
  by (simp add: pacing_def)

lemma try_block_quiet:
  "\<exists>es. events (snd (try_block oc url dest_path w)) = events w @ es
        \<and> calls es = [] \<and> pacing es = []"
  by (auto simp: try_block_def Let_def emit_def calls_def pacing_def
      split: option.splits sum.splits prod.splits)

lemma download_file_adds:
  "\<exists>es. events (snd (download_file oc url dest_path w)) = events w @ Call url dest_path # es
        \<and> calls es = [] \<and> pacing es = []"
proof (cases "makedirs_exn oc = None \<and> Request_exn oc = None")
  case True
  obtain es where "events (snd (try_block oc url dest_path (before_try url dest_path w)))
       = events (before_try url dest_path w) @ es" "calls es = []" "pacing es = []"
    using try_block_quiet by blast
  with True show ?thesis
    by (simp add: download_file_snd before_try_events calls_def pacing_def)
next
  case False
  then have "snd (download_file oc url dest_path w) = before_try url dest_path w"
    unfolding download_file_snd by (simp only: if_False)
  then show ?thesis
    by (simp add: before_try_events calls_def pacing_def)
qed

lemma download_file_ncalls: "ncalls (snd (download_file oc url dest_path w)) = Suc (ncalls w)"
  by (simp add: download_file_snd try_block_ncalls before_try_ncalls)

lemma download_file_other_files:
  "p \<noteq> dest_path \<Longrightarrow> files (snd (download_file oc url dest_path w)) p = files w p"
  by (simp add: download_file_snd try_block_other_files before_try_files)

lemma print_result_world:
  "\<exists>line. events (print_result label ok msg w) = events w @ [Print line]"
  "files (print_result label ok msg w) = files w"
  "ncalls (print_result label ok msg w) = ncalls w"
  by (simp_all add: print_result_def print_def emit_def Let_def)

lemma attempt_unfold:
  "attempt env (label, url, out_path) (t, w) =
     (case fst (download_file (env (ncalls w) url out_path) url out_path w) of
        Inl e \<Rightarrow> (Some e, t, snd (download_file (env (ncalls w) url out_path) url out_path w))
      | Inr r \<Rightarrow>
          (None,
           (if fst r then t\<lparr>success_count := success_count t + 1\<rparr>
            else t\<lparr>fail_count := fail_count t + 1,
                   failures := failures t @ [(label, url, snd r)]\<rparr>),
           emit (Sleep (3 / 10))
             (print_result label (fst r) (snd r)
                (snd (download_file (env (ncalls w) url out_path) url out_path w)))))"
  by (simp add: attempt_def Let_def split: prod.splits sum.splits)

text \<open>The three ways the shared loop body can go.\<close>

lemma attempt_cases:
  fixes env label url out_path t w
  defines "oc \<equiv> env (ncalls w) url out_path"
  defines "w1 \<equiv> snd (download_file oc url out_path w)"
  obtains (escape) e where
      "makedirs_exn oc \<noteq> None \<or> Request_exn oc \<noteq> None"
      "attempt env (label, url, out_path) (t, w) = (Some e, t, w1)"
    | (success) msg where
      "makedirs_exn oc = None" "Request_exn oc = None"
      "fst (download_file oc url out_path w) = Inr (True, msg)"
      "attempt env (label, url, out_path) (t, w) =
         (None, t\<lparr>success_count := success_count t + 1\<rparr>,
          emit (Sleep (3 / 10)) (print_result label True msg w1))"
    | (failure) msg where
      "makedirs_exn oc = None" "Request_exn oc = None"
      "fst (download_file oc url out_path w) = Inr (False, msg)"
      "attempt env (label, url, out_path) (t, w) =
         (None, t\<lparr>fail_count := fail_count t + 1,
                  failures := failures t @ [(label, url, msg)]\<rparr>,
          emit (Sleep (3 / 10)) (print_result label False msg w1))"
proof (cases "fst (download_file oc url out_path w)")
  case (Inl e)
  then have "makedirs_exn oc \<noteq> None \<or> Request_exn oc \<noteq> None"
    using download_file_escapes [of oc url out_path w] by blast
  moreover have "attempt env (label, url, out_path) (t, w) = (Some e, t, w1)"
    using Inl by (simp add: attempt_unfold oc_def w1_def)
  ultimately show ?thesis by (rule escape)
next
  case (Inr r)
  obtain ok msg where r: "r = (ok, msg)" by (cases r)
  have ne: "makedirs_exn oc = None" "Request_exn oc = None"
    using download_file_escapes [of oc url out_path w] Inr by auto
  show ?thesis
  proof (cases ok)
    case True
    with Inr r have "attempt env (label, url, out_path) (t, w) =
         (None, t\<lparr>success_count := success_count t + 1\<rparr>,
          emit (Sleep (3 / 10)) (print_result label True msg w1))"
      by (simp add: attempt_unfold oc_def w1_def)
    with ne Inr r True show ?thesis by (auto intro: success)
  next
    case False
    with Inr r have "attempt env (label, url, out_path) (t, w) =
         (None, t\<lparr>fail_count := fail_count t + 1,
                  failures := failures t @ [(label, url, msg)]\<rparr>,
          emit (Sleep (3 / 10)) (print_result label False msg w1))"
      by (simp add: attempt_unfold oc_def w1_def)
    with ne Inr r False show ?thesis by (auto intro: failure)
  qed
qed

section \<open>Properties of the loop over the steps\<close>

lemma say_unfold: "say line (t, w) = (None, t, print line w)"
  by (simp add: say_def)

lemma print_world:
  "events (print line w) = events w @ [Print line]"
  "files (print line w) = files w"
  "ncalls (print line w) = ncalls w"
  by (simp_all add: print_def emit_def)

lemma run_step_cases:
  obtains (announce) line where "st = Announce line"
      "run_step env st (t, w) = (None, t, print line w)"
    | (escape) label url out_path e where "st = Fetch (label, url, out_path)"
      "makedirs_exn (env (ncalls w) url out_path) \<noteq> None
       \<or> Request_exn (env (ncalls w) url out_path) \<noteq> None"
      "run_step env st (t, w) =
         (Some e, t, snd (download_file (env (ncalls w) url out_path) url out_path w))"
    | (success) label url out_path msg where "st = Fetch (label, url, out_path)"
      "makedirs_exn (env (ncalls w) url out_path) = None"
      "Request_exn (env (ncalls w) url out_path) = None"
      "run_step env st (t, w) =
         (None, t\<lparr>success_count := success_count t + 1\<rparr>,
          emit (Sleep (3 / 10)) (print_result label True msg
            (snd (download_file (env (ncalls w) url out_path) url out_path w))))"
    | (failure) label url out_path msg where "st = Fetch (label, url, out_path)"
      "makedirs_exn (env (ncalls w) url out_path) = None"
      "Request_exn (env (ncalls w) url out_path) = None"
      "run_step env st (t, w) =
         (None, t\<lparr>fail_count := fail_count t + 1,
                  failures := failures t @ [(label, url, msg)]\<rparr>,
          emit (Sleep (3 / 10)) (print_result label False msg
            (snd (download_file (env (ncalls w) url out_path) url out_path w))))"
proof (cases st)
  case (Announce line)
  then show ?thesis by (auto intro: announce simp: say_unfold)
next
  case (Fetch tg)
  obtain label url out_path where tg: "tg = (label, url, out_path)"
    by (cases tg)
  show ?thesis
  proof (cases rule: attempt_cases [where env = env and w = w and url = url
        and out_path = out_path and label = label and t = t])
    case (escape e)
    with Fetch tg show ?thesis by (auto intro: that(2))
  next
    case (success msg)
    with Fetch tg show ?thesis by (auto intro: that(3))
  next
    case (failure msg)
    with Fetch tg show ?thesis by (auto intro: that(4))
  qed
qed

text \<open>What one step does to the world, whichever way it goes.\<close>

lemma emit_world:
  "events (emit ev w) = events w @ [ev]"
  "files (emit ev w) = files w"
  "ncalls (emit ev w) = ncalls w"
  by (simp_all add: emit_def)

lemma run_step_world:
  assumes "run_step env st (t, w) = (r, t', w')"
  shows "ncalls w' = ncalls w + length (fetched [st])"
    and "calls (events w') = calls (events w) @ map url_path (fetched [st])"
    and "pacing (events w') = pacing (events w) @
           (if r = None then concat (map (\<lambda>tg. attempt_pacing (url_path tg)) (fetched [st]))
            else map (\<lambda>tg. Call (fst (url_path tg)) (snd (url_path tg))) (fetched [st]))"
    and "\<exists>es. events w' = events w @ es"
    and "files w' p \<noteq> files w p \<Longrightarrow> p \<in> set (map (\<lambda>tg. snd (url_path tg)) (fetched [st]))"
proof -
  have "ncalls w' = ncalls w + length (fetched [st])
    \<and> calls (events w') = calls (events w) @ map url_path (fetched [st])
    \<and> pacing (events w') = pacing (events w) @
           (if r = None then concat (map (\<lambda>tg. attempt_pacing (url_path tg)) (fetched [st]))
            else map (\<lambda>tg. Call (fst (url_path tg)) (snd (url_path tg))) (fetched [st]))
    \<and> (\<exists>es. events w' = events w @ es)
    \<and> (files w' p \<noteq> files w p \<longrightarrow> p \<in> set (map (\<lambda>tg. snd (url_path tg)) (fetched [st])))"
  proof (cases rule: run_step_cases [of st env t w])
    case (announce line)
    with assms show ?thesis
      by (auto simp: print_world calls_def pacing_def)
  next
    case (escape label url out_path e)
    obtain es where es: "events (snd (download_file (env (ncalls w) url out_path) url out_path w))
        = events w @ Call url out_path # es" "calls es = []" "pacing es = []"
      using download_file_adds by blast
    from escape assms have w': "w' = snd (download_file (env (ncalls w) url out_path) url out_path w)"
      and r: "r \<noteq> None" by auto
    show ?thesis
      using escape(1) r es download_file_other_files [of p out_path _ url w]
      unfolding w'
      by (auto simp: download_file_ncalls calls_append pacing_append url_path_def
          calls_def pacing_def)
  next
    case (success label url out_path msg)
    obtain es where es: "events (snd (download_file (env (ncalls w) url out_path) url out_path w))
        = events w @ Call url out_path # es" "calls es = []" "pacing es = []"
      using download_file_adds by blast
    obtain line where line: "events (print_result label True msg
          (snd (download_file (env (ncalls w) url out_path) url out_path w)))
        = events (snd (download_file (env (ncalls w) url out_path) url out_path w)) @ [Print line]"
      using print_result_world(1) by blast
    from success assms have w': "w' = emit (Sleep (3 / 10)) (print_result label True msg
            (snd (download_file (env (ncalls w) url out_path) url out_path w)))"
      and r: "r = None" by auto
    show ?thesis
      using success(1) r es line download_file_other_files [of p out_path _ url w]
      unfolding w'
      by (auto simp: emit_world print_result_world(2,3) download_file_ncalls
          url_path_def attempt_pacing_def calls_def pacing_def)
  next
    case (failure label url out_path msg)
    obtain es where es: "events (snd (download_file (env (ncalls w) url out_path) url out_path w))
        = events w @ Call url out_path # es" "calls es = []" "pacing es = []"
      using download_file_adds by blast
    obtain line where line: "events (print_result label False msg
          (snd (download_file (env (ncalls w) url out_path) url out_path w)))
        = events (snd (download_file (env (ncalls w) url out_path) url out_path w)) @ [Print line]"
      using print_result_world(1) by blast
    from failure assms have w': "w' = emit (Sleep (3 / 10)) (print_result label False msg
            (snd (download_file (env (ncalls w) url out_path) url out_path w)))"
      and r: "r = None" by auto
    show ?thesis
      using failure(1) r es line download_file_other_files [of p out_path _ url w]
      unfolding w'
      by (auto simp: emit_world print_result_world(2,3) download_file_ncalls
          url_path_def attempt_pacing_def calls_def pacing_def)
  qed
  then show "ncalls w' = ncalls w + length (fetched [st])"
    and "calls (events w') = calls (events w) @ map url_path (fetched [st])"
    and "pacing (events w') = pacing (events w) @
           (if r = None then concat (map (\<lambda>tg. attempt_pacing (url_path tg)) (fetched [st]))
            else map (\<lambda>tg. Call (fst (url_path tg)) (snd (url_path tg))) (fetched [st]))"
    and "\<exists>es. events w' = events w @ es"
    and "files w' p \<noteq> files w p \<Longrightarrow> p \<in> set (map (\<lambda>tg. snd (url_path tg)) (fetched [st]))"
    by blast+
qed

text \<open>What one step does to the counters.\<close>

lemma run_step_tally:
  assumes "run_step env st (t, w) = (r, t', w')"
  shows "r \<noteq> None \<Longrightarrow> t' = t"
    and "r = None \<Longrightarrow>
          success_count t' + fail_count t' = success_count t + fail_count t + length (fetched [st])"
    and "fail_count t = length (failures t) \<Longrightarrow> fail_count t' = length (failures t')"
    and "r = None \<longleftrightarrow>
           (\<forall>tg \<in> set (fetched [st]).
              makedirs_exn (env (ncalls w) (fst (url_path tg)) (snd (url_path tg))) = None
              \<and> Request_exn (env (ncalls w) (fst (url_path tg)) (snd (url_path tg))) = None)"
proof -
  have "(r \<noteq> None \<longrightarrow> t' = t)
    \<and> (r = None \<longrightarrow>
          success_count t' + fail_count t' = success_count t + fail_count t + length (fetched [st]))
    \<and> (fail_count t = length (failures t) \<longrightarrow> fail_count t' = length (failures t'))
    \<and> (r = None \<longleftrightarrow>
           (\<forall>tg \<in> set (fetched [st]).
              makedirs_exn (env (ncalls w) (fst (url_path tg)) (snd (url_path tg))) = None
              \<and> Request_exn (env (ncalls w) (fst (url_path tg)) (snd (url_path tg))) = None))"
    using assms
    by (cases rule: run_step_cases [of st env t w]) (auto simp: url_path_def)
  then show "r \<noteq> None \<Longrightarrow> t' = t"
    and "r = None \<Longrightarrow>
          success_count t' + fail_count t' = success_count t + fail_count t + length (fetched [st])"
    and "fail_count t = length (failures t) \<Longrightarrow> fail_count t' = length (failures t')"
    and "r = None \<longleftrightarrow>
           (\<forall>tg \<in> set (fetched [st]).
              makedirs_exn (env (ncalls w) (fst (url_path tg)) (snd (url_path tg))) = None
              \<and> Request_exn (env (ncalls w) (fst (url_path tg)) (snd (url_path tg))) = None)"
    by blast+
qed

lemma fetched_Cons: "fetched (st # sts) = fetched [st] @ fetched sts"
  by (cases st) simp_all

lemma fetched_single: "length (fetched [st]) \<le> 1"
  by (cases st) simp_all

lemma for_each_Cons_cases:
  assumes "for_each body (x # xs) s = (r, s')"
  obtains (stop) e where "body x s = (Some e, s')" "r = Some e"
    | (go) s1 where "body x s = (None, s1)" "for_each body xs s1 = (r, s')"
  using assms by (auto split: prod.splits option.splits)

text \<open>The counters along the loop.\<close>

lemma steps_tally:
  assumes "for_each (run_step env) sts (t, w) = (r, t', w')"
  shows "(fail_count t = length (failures t) \<longrightarrow> fail_count t' = length (failures t'))
       \<and> success_count t' + fail_count t' \<le> success_count t + fail_count t + length (fetched sts)
       \<and> (r = None \<longrightarrow>
            success_count t' + fail_count t' = success_count t + fail_count t + length (fetched sts))"
  using assms
proof (induction sts arbitrary: t w)
  case Nil
  then show ?case by simp
next
  case (Cons st sts)
  from Cons.prems show ?case
  proof (cases rule: for_each_Cons_cases)
    case (stop e)
    from run_step_tally(1) [OF stop(1)] have "t' = t" by simp
    then show ?thesis using stop(2) by simp
  next
    case (go s1)
    obtain t1 w1 where s1: "s1 = (t1, w1)" by (cases s1)
    note st = go(1) [unfolded s1]
    from run_step_tally(2) [OF st] run_step_tally(3) [OF st]
    have a: "success_count t1 + fail_count t1
               = success_count t + fail_count t + length (fetched [st])"
      and b: "fail_count t = length (failures t) \<Longrightarrow> fail_count t1 = length (failures t1)"
      by simp_all
    from Cons.IH [OF go(2) [unfolded s1]] a b show ?thesis
      by (subst (1 2) fetched_Cons) auto
  qed
qed

text \<open>When nothing escapes \<open>download_file\<close>, the loop runs to its end.\<close>

lemma steps_complete:
  assumes "no_escape env"
  shows "fst (for_each (run_step env) sts (t, w)) = None"
proof (induction sts arbitrary: t w)
  case Nil
  then show ?case by simp
next
  case (Cons st sts)
  obtain r t1 w1 where st: "run_step env st (t, w) = (r, t1, w1)"
    by (cases "run_step env st (t, w)")
  from run_step_tally(4) [OF st] assms have "r = None"
    by (simp add: no_escape_def)
  with st Cons.IH [of t1 w1] show ?case by simp
qed

text \<open>The invocations along the loop: a prefix of the targets, all of them at the end.\<close>

lemma steps_calls:
  assumes "for_each (run_step env) sts (t, w) = (r, t', w')"
  shows "\<exists>k \<le> length (fetched sts).
           calls (events w') = calls (events w) @ map url_path (take k (fetched sts))
           \<and> (r = None \<longrightarrow> k = length (fetched sts))"
  using assms
proof (induction sts arbitrary: t w)
  case Nil
  then show ?case by simp
next
  case (Cons st sts)
  from Cons.prems show ?case
  proof (cases rule: for_each_Cons_cases)
    case (stop e)
    from run_step_world(2) [OF stop(1)]
    have "calls (events w') = calls (events w) @ map url_path (take (length (fetched [st]))
        (fetched (st # sts)))"
      by (subst fetched_Cons) simp
    moreover have "length (fetched [st]) \<le> length (fetched (st # sts))"
      by (subst (2) fetched_Cons) simp
    ultimately show ?thesis using stop(2) by blast
  next
    case (go s1)
    obtain t1 w1 where s1: "s1 = (t1, w1)" by (cases s1)
    from Cons.IH [OF go(2) [unfolded s1]] obtain k where k: "k \<le> length (fetched sts)"
        "calls (events w') = calls (events w1) @ map url_path (take k (fetched sts))"
        "r = None \<longrightarrow> k = length (fetched sts)"
      by blast
    from run_step_world(2) [OF go(1) [unfolded s1]] k(2)
    have "calls (events w') = calls (events w) @ map url_path
        (take (length (fetched [st]) + k) (fetched (st # sts)))"
      by (subst fetched_Cons) simp
    moreover have "length (fetched [st]) + k \<le> length (fetched (st # sts))"
      using k(1) by (subst fetched_Cons) simp
    moreover have "r = None \<longrightarrow> length (fetched [st]) + k = length (fetched (st # sts))"
      using k(3) by (subst fetched_Cons) simp
    ultimately show ?thesis by blast
  qed
qed

text \<open>The invocations and sleeps along the loop.\<close>

lemma paced_attempt: "paced es \<Longrightarrow> paced (attempt_pacing c @ es)"
  by (simp add: attempt_pacing_def)

lemma steps_pacing:
  assumes "for_each (run_step env) sts (t, w) = (r, t', w')"
  shows "\<exists>es. pacing (events w') = pacing (events w) @ es \<and> paced es
           \<and> (r = None \<longrightarrow>
                es = concat (map (\<lambda>tg. attempt_pacing (url_path tg)) (fetched sts)))"
  using assms
proof (induction sts arbitrary: t w)
  case Nil
  then show ?case by simp
next
  case (Cons st sts)
  from Cons.prems show ?case
  proof (cases rule: for_each_Cons_cases)
    case (stop e)
    from run_step_world(3) [OF stop(1)]
    have "pacing (events w') = pacing (events w) @
        map (\<lambda>tg. Call (fst (url_path tg)) (snd (url_path tg))) (fetched [st])"
      by simp
    moreover have "paced (map (\<lambda>tg. Call (fst (url_path tg)) (snd (url_path tg))) (fetched [st]))"
      by (cases st) simp_all
    ultimately show ?thesis using stop(2) by blast
  next
    case (go s1)
    obtain t1 w1 where s1: "s1 = (t1, w1)" by (cases s1)
    from Cons.IH [OF go(2) [unfolded s1]] obtain es where es:
        "pacing (events w') = pacing (events w1) @ es" "paced es"
        "r = None \<longrightarrow> es = concat (map (\<lambda>tg. attempt_pacing (url_path tg)) (fetched sts))"
      by blast
    let ?a = "concat (map (\<lambda>tg. attempt_pacing (url_path tg)) (fetched [st]))"
    from run_step_world(3) [OF go(1) [unfolded s1]] es(1)
    have "pacing (events w') = pacing (events w) @ ?a @ es"
      by simp
    moreover have "paced (?a @ es)"
      using es(2) by (cases st) (simp_all add: paced_attempt)
    moreover have "r = None \<longrightarrow>
        ?a @ es = concat (map (\<lambda>tg. attempt_pacing (url_path tg)) (fetched (st # sts)))"
      using es(3) by (subst fetched_Cons) simp
    ultimately show ?thesis by blast
  qed
qed

text \<open>Events are only added, and only the files at the output paths can change.\<close>

lemma steps_events:
  assumes "for_each (run_step env) sts (t, w) = (r, t', w')"
  shows "\<exists>es. events w' = events w @ es"
  using assms
proof (induction sts arbitrary: t w)
  case Nil
  then show ?case by simp
next
  case (Cons st sts)
  from Cons.prems show ?case
  proof (cases rule: for_each_Cons_cases)
    case (stop e)
    from run_step_world(4) [OF stop(1)] show ?thesis .
  next
    case (go s1)
    obtain t1 w1 where s1: "s1 = (t1, w1)" by (cases s1)
    from Cons.IH [OF go(2) [unfolded s1]] run_step_world(4) [OF go(1) [unfolded s1]]
    show ?thesis by auto
  qed
qed

lemma steps_files:
  assumes "for_each (run_step env) sts (t, w) = (r, t', w')"
    and "files w' p \<noteq> files w p"
  shows "p \<in> set (map (\<lambda>tg. snd (url_path tg)) (fetched sts))"
  using assms
proof (induction sts arbitrary: t w)
  case Nil
  then show ?case by simp
next
  case (Cons st sts)
  from Cons.prems(1) show ?case
  proof (cases rule: for_each_Cons_cases)
    case (stop e)
    from run_step_world(5) [OF stop(1)] Cons.prems(2) show ?thesis
      by (subst fetched_Cons) auto
  next
    case (go s1)
    obtain t1 w1 where s1: "s1 = (t1, w1)" by (cases s1)
    show ?thesis
    proof (cases "files w1 p = files w p")
      case True
      with Cons.prems(2) have "files w' p \<noteq> files w1 p" by simp
      from Cons.IH [OF go(2) [unfolded s1] this] show ?thesis
        by (subst fetched_Cons) auto
    next
      case False
      from run_step_world(5) [OF go(1) [unfolded s1]] False show ?thesis
        by (subst fetched_Cons) auto
    qed
  qed
qed


section \<open>Properties of a whole run\<close>

lemma for_each_say:
  "for_each say lines (t, w) = (None, t, w\<lparr>events := events w @ map Print lines\<rparr>)"
  by (induction lines arbitrary: w) (simp_all add: say_unfold print_def emit_def)

lemma calls_Nil: "calls [] = []"
  by (simp add: calls_def)

lemma pacing_Nil: "pacing [] = []"
  by (simp add: pacing_def)

lemma calls_prints: "calls (map Print lines) = []"
  by (induction lines) (simp_all add: calls_def)

lemma pacing_prints: "pacing (map Print lines) = []"
  by (induction lines) (simp_all add: pacing_def)

text \<open>\<open>main\<close> is the banner, the loop over the steps and, if the loop ends, the report.\<close>

lemma main_with_steps:
  assumes "well_shaped m"
  shows "main_with m env cwd w =
     (case for_each (run_step env) (steps m)
             (\<lparr>success_count = 0, fail_count = 0, failures = []\<rparr>,
              w\<lparr>events := events w @ map Print banner\<rparr>) of
        (Some e, s) \<Rightarrow> (Some e, s)
      | (None, s) \<Rightarrow>
          (None, fst s,
           (snd s)\<lparr>events := events (snd s) @ map Print (report_lines cwd (fst s))\<rparr>))"
  unfolding main_with_def
  by (simp add: block_Cons block_Nil for_each_say downloads_steps [OF assms]
      split: prod.splits option.splits)

lemma main_with_facts:
  assumes ws: "well_shaped m"
    and run: "main_with m env cwd w = (r, t', w')"
  shows "fail_count t' = length (failures t')"
    and "success_count t' + fail_count t' \<le> length (targets m)"
    and "r = None \<Longrightarrow> success_count t' + fail_count t' = length (targets m)"
    and "\<exists>k \<le> length (targets m).
           calls (since w w') = map url_path (take k (targets m))
           \<and> (r = None \<longrightarrow> k = length (targets m))"
    and "paced (pacing (since w w'))"
    and "r = None \<Longrightarrow>
           pacing (since w w') = concat (map (\<lambda>tg. attempt_pacing (url_path tg)) (targets m))"
    and "files w' p \<noteq> files w p \<Longrightarrow> p \<in> set (map (\<lambda>tg. snd (url_path tg)) (targets m))"
    and "r = None \<Longrightarrow> \<exists>es. since w w' = es @ map Print (report_lines cwd t')"
    and "no_escape env \<Longrightarrow> r = None"
proof -
  let ?t0 = "\<lparr>success_count = 0, fail_count = 0, failures = []\<rparr>"
  let ?wb = "w\<lparr>events := events w @ map Print banner\<rparr>"
  obtain r1 t1 w1 where loop: "for_each (run_step env) (steps m) (?t0, ?wb) = (r1, t1, w1)"
    by (cases "for_each (run_step env) (steps m) (?t0, ?wb)")
  from run loop have r: "r = r1" and t: "t' = t1"
    and w': "w' = (if r1 = None
                   then w1\<lparr>events := events w1 @ map Print (report_lines cwd t1)\<rparr> else w1)"
    by (auto simp: main_with_steps [OF ws] split: option.splits)
  obtain es where es: "events w1 = events ?wb @ es"
    using steps_events [OF loop] by blast
  define rep where "rep = (if r1 = None then map Print (report_lines cwd t1) else [])"
  have ev: "events w' = events w @ map Print banner @ es @ rep"
    using es by (simp add: w' rep_def)
  have since: "since w w' = map Print banner @ es @ rep"
    using ev by (simp add: since_def)
  have rep_quiet: "calls rep = []" "pacing rep = []"
    by (simp_all add: rep_def calls_prints pacing_prints calls_Nil pacing_Nil)
  have c: "calls (since w w') = calls es" and p: "pacing (since w w') = pacing es"
    using rep_quiet by (simp_all add: since calls_append pacing_append calls_prints pacing_prints)
  have c1: "calls (events w1) = calls (events ?wb) @ calls es"
    and p1: "pacing (events w1) = pacing (events ?wb) @ pacing es"
    by (simp_all add: es calls_append pacing_append)
  from steps_tally [OF loop] show "fail_count t' = length (failures t')"
    and "success_count t' + fail_count t' \<le> length (targets m)"
    and "r = None \<Longrightarrow> success_count t' + fail_count t' = length (targets m)"
    by (simp_all add: r t fetched_steps)
  from steps_calls [OF loop] obtain k where k: "k \<le> length (targets m)"
      "calls (events w1) = calls (events ?wb) @ map url_path (take k (targets m))"
      "r1 = None \<longrightarrow> k = length (targets m)"
    by (auto simp: fetched_steps)
  from k(2) c1 have "calls es = map url_path (take k (targets m))" by simp
  with k(1,3) c r show "\<exists>k \<le> length (targets m).
           calls (since w w') = map url_path (take k (targets m))
           \<and> (r = None \<longrightarrow> k = length (targets m))"
    by auto
  from steps_pacing [OF loop] obtain ps where ps:
      "pacing (events w1) = pacing (events ?wb) @ ps" "paced ps"
      "r1 = None \<longrightarrow> ps = concat (map (\<lambda>tg. attempt_pacing (url_path tg)) (targets m))"
    by (auto simp: fetched_steps)
  from ps(1) p1 have "pacing es = ps" by simp
  with ps(2,3) p r show "paced (pacing (since w w'))"
    and "r = None \<Longrightarrow>
           pacing (since w w') = concat (map (\<lambda>tg. attempt_pacing (url_path tg)) (targets m))"
    by auto
  have "files w' = files w1" by (simp add: w')
  with steps_files [OF loop, of p]
  show "files w' p \<noteq> files w p \<Longrightarrow> p \<in> set (map (\<lambda>tg. snd (url_path tg)) (targets m))"
    by (simp add: fetched_steps)
  show "r = None \<Longrightarrow> \<exists>es. since w w' = es @ map Print (report_lines cwd t')"
    using since by (auto simp: rep_def r t)
  show "no_escape env \<Longrightarrow> r = None"
    using steps_complete [of env "steps m" ?t0 ?wb] loop by (simp add: r)
qed

text \<open>The manifest of the program.\<close>

lemma MANIFEST_well_shaped: "well_shaped MANIFEST"
  by (simp add: well_shaped_def MANIFEST_def ARMY_FILES_def AF_FILES_def DW_FILES_def
      DOD_SUMMARY_def)

lemma MANIFEST_lengths:
  "length ARMY_FILES = 37" "length AF_FILES = 27" "length DW_FILES = 25"
  "length DOD_SUMMARY = 9"
  by (simp_all add: ARMY_FILES_def AF_FILES_def DW_FILES_def DOD_SUMMARY_def)

lemma length_rights:
  "list_all (\<lambda>x. \<not> isl (f x)) xs \<Longrightarrow> length (rights (map f xs)) = length xs"
  using rights_map_Inr [of f xs] by (metis length_map)

lemma length_targets:
  assumes "well_shaped m"
  shows "length (targets m) = length (army m) + length (af m) + length (dw m) + length (dod m)"
  using well_shaped_Inr [OF assms]
  by (simp add: targets_def rights_append length_rights)

lemma targets_in_order:
  assumes "well_shaped m"
  shows "map Inr (targets m) =
     map army_target (army m) @ map af_target (af m)
     @ map dw_target (dw m) @ map dod_target (dod m)"
  using well_shaped_Inr [OF assms]
  by (simp add: targets_def rights_append rights_map_Inr)

lemma length_targets_MANIFEST: "length (targets MANIFEST) = 98"
  using length_targets [OF MANIFEST_well_shaped] by (simp add: MANIFEST_def MANIFEST_lengths)

lemma no_escape_all_ok: "no_escape (\<lambda>n url dest_path. all_ok data)"
  by (simp add: no_escape_def all_ok_def)


section \<open>The tally and the final report\<close>










section \<open>Order and pacing of the downloads\<close>




lemma first_army_entry:
  "ARMY_FILES =
     [''Military Personnel'', ''Military Personnel Army Volume 1'', ''xml''] # tl ARMY_FILES"
  by (simp add: ARMY_FILES_def)

lemma first_target:
  "hd (targets MANIFEST) =
     (''Army/Military Personnel/Military Personnel Army Volume 1.xml'',
      ''https://www.asafm.army.mil/Portals/72/Documents/BudgetMaterial/2026/Discretionary%20Budget/Military%20Personnel/Military%20Personnel%20Army%20Volume%201.xml'',
      ''fy2026_budget/Army/Military Personnel/Military Personnel Army Volume 1.xml'')"
proof -
  have "army_target [''Military Personnel'', ''Military Personnel Army Volume 1'', ''xml''] =
     Inr (''Army/Military Personnel/Military Personnel Army Volume 1.xml'',
      ''https://www.asafm.army.mil/Portals/72/Documents/BudgetMaterial/2026/Discretionary%20Budget/Military%20Personnel/Military%20Personnel%20Army%20Volume%201.xml'',
      ''fy2026_budget/Army/Military Personnel/Military Personnel Army Volume 1.xml'')"
    by (simp add: Let_def quote_def quote_byte_def ALWAYS_SAFE_def ARMY_BASE_def OUTPUT_DIR_def
        path_join_def join_step_def safe_filename_def replace_char_def ILLEGAL_def)
  then show ?thesis
    unfolding targets_def MANIFEST_def
    by (subst first_army_entry) simp
qed






section \<open>The shape of the manifest entries\<close>

lemma calls_subset:
  assumes "calls evs = map url_path (take k tgs)"
  shows "set (calls evs) \<subseteq> set (map url_path tgs)"
  using assms by (auto dest: in_set_takeD)

text \<open>
  Claim C5, as amended. Every entry of ARMY_FILES and of AF_FILES is a
  (category, filename, extension) triple, every entry of DW_FILES a
  (category, path, filename, extension) 4-tuple, and every entry of DOD_SUMMARY a
  (url, subfolder, filename) triple. From each entry its loop computes a URL and an output
  path, as stated here for each of the four shapes, and hands them to the one routine
  \<open>download_file\<close>: every invocation in a run is for an entry of the manifest, and a run
  in which nothing is raised before a \<open>try\<close> block invokes it for every entry.
\<close>

theorem manifest_shapes:
  "list_all (\<lambda>item. length item = 3) ARMY_FILES
   \<and> list_all (\<lambda>item. length item = 3) AF_FILES
   \<and> list_all (\<lambda>item. length item = 4) DW_FILES
   \<and> list_all (\<lambda>item. length item = 3) DOD_SUMMARY
   \<and> army_target [category, filename, ext] =
        Inr (''Army/'' @ category @ ''/'' @ filename @ ''.'' @ ext,
             ARMY_BASE @ ''/'' @ quote (category @ ''/'' @ filename @ ''.'' @ ext),
             path_join OUTPUT_DIR
               [''Army'', safe_filename category, safe_filename filename @ ''.'' @ ext])
   \<and> af_target [category, filename, ext] =
        Inr (''AF/'' @ category @ ''/'' @ filename @ ''.'' @ ext,
             AF_BASE @ ''/'' @ quote (filename @ ''.'' @ ext),
             path_join OUTPUT_DIR
               [''AirForce'', safe_filename category, safe_filename filename @ ''.'' @ ext])
   \<and> dw_target [category, path, filename, ext] =
        Inr (''DW/'' @ category @ ''/'' @ filename @ ''.'' @ ext,
             DW_BASE @ ''/'' @ path @ ''/'' @ filename @ ''.'' @ ext,
             path_join OUTPUT_DIR
               [''DefenseWide'', safe_filename category, safe_filename filename @ ''.'' @ ext])
   \<and> dod_target [url, subfolder, fname] =
        Inr (fname, url, path_join OUTPUT_DIR [subfolder, fname])
   \<and> map Inr (targets MANIFEST) =
       map army_target ARMY_FILES @ map af_target AF_FILES
       @ map dw_target DW_FILES @ map dod_target DOD_SUMMARY
   \<and> (case main env cwd w of (r, t', w') \<Rightarrow>
        set (calls (since w w')) \<subseteq> set (map url_path (targets MANIFEST))
        \<and> (no_escape env \<longrightarrow>
              set (calls (since w w')) = set (map url_path (targets MANIFEST))))"
proof -
  have shapes: "list_all (\<lambda>item. length item = 3) ARMY_FILES"
      "list_all (\<lambda>item. length item = 3) AF_FILES"
      "list_all (\<lambda>item. length item = 4) DW_FILES"
      "list_all (\<lambda>item. length item = 3) DOD_SUMMARY"
    using MANIFEST_well_shaped by (simp_all add: well_shaped_def MANIFEST_def)
  have roles: "army_target [category, filename, ext] =
        Inr (''Army/'' @ category @ ''/'' @ filename @ ''.'' @ ext,
             ARMY_BASE @ ''/'' @ quote (category @ ''/'' @ filename @ ''.'' @ ext),
             path_join OUTPUT_DIR
               [''Army'', safe_filename category, safe_filename filename @ ''.'' @ ext])"
      "af_target [category, filename, ext] =
        Inr (''AF/'' @ category @ ''/'' @ filename @ ''.'' @ ext,
             AF_BASE @ ''/'' @ quote (filename @ ''.'' @ ext),
             path_join OUTPUT_DIR
               [''AirForce'', safe_filename category, safe_filename filename @ ''.'' @ ext])"
      "dw_target [category, path, filename, ext] =
        Inr (''DW/'' @ category @ ''/'' @ filename @ ''.'' @ ext,
             DW_BASE @ ''/'' @ path @ ''/'' @ filename @ ''.'' @ ext,
             path_join OUTPUT_DIR
               [''DefenseWide'', safe_filename category, safe_filename filename @ ''.'' @ ext])"
      "dod_target [url, subfolder, fname] =
        Inr (fname, url, path_join OUTPUT_DIR [subfolder, fname])"
    by (simp_all add: Let_def)
  have order: "map Inr (targets MANIFEST) =
       map army_target ARMY_FILES @ map af_target AF_FILES
       @ map dw_target DW_FILES @ map dod_target DOD_SUMMARY"
    using targets_in_order [OF MANIFEST_well_shaped] by (simp add: MANIFEST_def)
  obtain r t' w' where m: "main_with MANIFEST env cwd w = (r, t', w')"
    by (cases "main_with MANIFEST env cwd w")
  note f = main_with_facts [OF MANIFEST_well_shaped m]
  from f(4) obtain k where k:
      "calls (since w w') = map url_path (take k (targets MANIFEST))"
      "r = None \<longrightarrow> k = length (targets MANIFEST)"
    by blast
  have sub: "set (calls (since w w')) \<subseteq> set (map url_path (targets MANIFEST))"
    by (rule calls_subset [OF k(1)])
  have all: "no_escape env \<longrightarrow>
              set (calls (since w w')) = set (map url_path (targets MANIFEST))"
    using f(9) k by simp
  have run: "case main env cwd w of (r, t', w') \<Rightarrow>
        set (calls (since w w')) \<subseteq> set (map url_path (targets MANIFEST))
        \<and> (no_escape env \<longrightarrow>
              set (calls (since w w')) = set (map url_path (targets MANIFEST)))"
    using sub all by (simp add: main_def m)
  from shapes roles order run show ?thesis by blast
qed

theorem manifest_shapes_witness:
  "no_escape (always (all_ok [1, 2, 3]))
   \<and> set (calls (since init_world
             (snd (snd (main (always (all_ok [1, 2, 3])) ''/srv'' init_world)))))
       = set (map url_path (targets MANIFEST))"
proof -
  have ne: "no_escape (always (all_ok [1, 2, 3]))"
    by (simp add: always_def no_escape_all_ok)
  from manifest_shapes [where env = "always (all_ok [1, 2, 3])" and cwd = "''/srv''"
      and w = init_world] ne
  show ?thesis
    by (simp add: case_prod_beta)
qed

theorem manifest_not_all_triples:
  "hd DW_FILES =
     [''O&M'', ''01_Operation_and_Maintenance/O_M_VOL_1_PART_1'', ''OM_Volume1_Part1'', ''json'']
   \<and> length (hd DW_FILES) = 4
   \<and> army_target (hd DW_FILES) = Inl (unpack_error 3 4)
   \<and> hd DOD_SUMMARY =
       [''https://comptroller.war.gov/Portals/45/Documents/defbudget/FY2026/m1_display.xlsx'',
        ''DoD_Summary'', ''FY2026_M1_Military_Personnel.xlsx'']
   \<and> dod_target (hd DOD_SUMMARY) =
       Inr (''FY2026_M1_Military_Personnel.xlsx'',
            ''https://comptroller.war.gov/Portals/45/Documents/defbudget/FY2026/m1_display.xlsx'',
            ''fy2026_budget/DoD_Summary/FY2026_M1_Military_Personnel.xlsx'')"
proof -
  have dw: "hd DW_FILES =
     [''O&M'', ''01_Operation_and_Maintenance/O_M_VOL_1_PART_1'', ''OM_Volume1_Part1'', ''json'']"
    by (simp add: DW_FILES_def)
  have dod: "hd DOD_SUMMARY =
       [''https://comptroller.war.gov/Portals/45/Documents/defbudget/FY2026/m1_display.xlsx'',
        ''DoD_Summary'', ''FY2026_M1_Military_Personnel.xlsx'']"
    by (simp add: DOD_SUMMARY_def)
  show ?thesis
    unfolding dw dod
    by (simp add: Let_def OUTPUT_DIR_def path_join_def join_step_def eval_nat_numeral)
qed

section \<open>Where the files go\<close>

lemma split_sep_nonempty: "split_sep s \<noteq> []"
  by (induction s) (auto split: list.splits)

lemma split_sep_plain: "CHR ''/'' \<notin> set s \<Longrightarrow> split_sep s = [s]"
  by (induction s) (auto split: list.splits)

lemma split_sep_append:
  "CHR ''/'' \<notin> set a \<Longrightarrow> split_sep (a @ CHR ''/'' # rest) = a # split_sep rest"
proof (induction a)
  case Nil
  obtain x xs where "split_sep rest = x # xs"
    using split_sep_nonempty [of rest] by (cases "split_sep rest") auto
  then show ?case by simp
next
  case (Cons c a)
  then show ?case by auto
qed

lemma split_sep_joined:
  "CHR ''/'' \<notin> set a \<Longrightarrow> list_all (\<lambda>c. CHR ''/'' \<notin> set c) cs \<Longrightarrow>
     split_sep (a @ concat (map (\<lambda>c. CHR ''/'' # c) cs)) = a # cs"
proof (induction cs arbitrary: a)
  case Nil
  then show ?case by (simp add: split_sep_plain)
next
  case (Cons c cs)
  from Cons.prems have c: "CHR ''/'' \<notin> set c" and cs: "list_all (\<lambda>c. CHR ''/'' \<notin> set c) cs"
    by simp_all
  from Cons.IH [OF c cs] split_sep_append [OF Cons.prems(1)] show ?case
    by simp
qed

lemma join_step_plain:
  assumes "p \<noteq> []" "last p \<noteq> CHR ''/''" "b \<noteq> []" "CHR ''/'' \<notin> set b"
  shows "join_step p b = p @ CHR ''/'' # b"
proof -
  from assms(3,4) have "hd b \<noteq> CHR ''/''" by (cases b) auto
  with assms show ?thesis by (simp add: join_step_def)
qed

lemma path_join_plain:
  assumes "p \<noteq> []" "last p \<noteq> CHR ''/''"
    and "list_all (\<lambda>c. c \<noteq> [] \<and> CHR ''/'' \<notin> set c) cs"
  shows "path_join p cs = p @ concat (map (\<lambda>c. CHR ''/'' # c) cs)"
  using assms
proof (induction cs arbitrary: p)
  case Nil
  then show ?case by (simp add: path_join_def)
next
  case (Cons c cs)
  from Cons.prems have c: "c \<noteq> []" "CHR ''/'' \<notin> set c"
    and cs: "list_all (\<lambda>c. c \<noteq> [] \<and> CHR ''/'' \<notin> set c) cs"
    by simp_all
  have step: "join_step p c = p @ CHR ''/'' # c"
    by (rule join_step_plain [OF Cons.prems(1,2) c])
  have l: "last (p @ CHR ''/'' # c) \<noteq> CHR ''/''"
    using c by (metis last_appendR last_ConsR last_in_set list.distinct(1))
  have "path_join (p @ CHR ''/'' # c) cs = (p @ CHR ''/'' # c) @ concat (map (\<lambda>c. CHR ''/'' # c) cs)"
    by (rule Cons.IH [OF _ l cs]) simp
  with step show ?case by (simp add: path_join_def)
qed

text \<open>
  Joining \<open>OUTPUT_DIR\<close> with components that are not empty and hold no separator gives a
  path with exactly these components.
\<close>

lemma split_path_join:
  assumes "list_all (\<lambda>c. c \<noteq> [] \<and> CHR ''/'' \<notin> set c) cs"
  shows "split_sep (path_join OUTPUT_DIR cs) = OUTPUT_DIR # cs"
proof -
  have o: "OUTPUT_DIR \<noteq> []" "last OUTPUT_DIR \<noteq> CHR ''/''" "CHR ''/'' \<notin> set OUTPUT_DIR"
    by (simp_all add: OUTPUT_DIR_def)
  from assms have "list_all (\<lambda>c. CHR ''/'' \<notin> set c) cs"
    by (simp add: list_all_iff)
  with path_join_plain [OF o(1,2) assms] split_sep_joined [OF o(3)] show ?thesis
    by simp
qed

lemma inside_components:
  assumes "split_sep p = OUTPUT_DIR # cs" "cs \<noteq> []"
    and "list_all (\<lambda>c. c \<noteq> [] \<and> hd c \<noteq> CHR ''.'') cs"
  shows "inside OUTPUT_DIR p"
proof -
  have "\<And>c. c \<noteq> [] \<and> hd c \<noteq> CHR ''.'' \<Longrightarrow> c \<noteq> [] \<and> c \<noteq> ''.'' \<and> c \<noteq> ''..''"
    by auto
  with assms(3) have "list_all (\<lambda>c. c \<noteq> [] \<and> c \<noteq> ''.'' \<and> c \<noteq> ''..'') cs"
    unfolding list_all_iff by blast
  with assms(1,2) show ?thesis by (simp add: inside_def)
qed

lemma safe_filename_plain: "CHR ''/'' \<notin> set (safe_filename s)"
  by (auto simp: safe_filename_map ILLEGAL_def)

lemma safe_filename_visible:
  assumes "s \<noteq> []" "hd s \<noteq> CHR ''.''"
  shows "safe_filename s \<noteq> [] \<and> hd (safe_filename s) \<noteq> CHR ''.''"
  using assms by (cases s) (auto simp: safe_filename_map)

text \<open>
  The entries of the manifest are harmless: categories and file names are not empty and
  do not start with a dot, extensions hold no separator, and the subfolder and file name
  of a DOD_SUMMARY entry hold none either.
\<close>

lemma army_entries_harmless:
  "list_all (\<lambda>i. length i = 3 \<and> i ! 0 \<noteq> [] \<and> hd (i ! 0) \<noteq> CHR ''.''
                \<and> i ! 1 \<noteq> [] \<and> hd (i ! 1) \<noteq> CHR ''.'' \<and> CHR ''/'' \<notin> set (i ! 2)) ARMY_FILES"
  by (simp add: ARMY_FILES_def)

lemma af_entries_harmless:
  "list_all (\<lambda>i. length i = 3 \<and> i ! 0 \<noteq> [] \<and> hd (i ! 0) \<noteq> CHR ''.''
                \<and> i ! 1 \<noteq> [] \<and> hd (i ! 1) \<noteq> CHR ''.'' \<and> CHR ''/'' \<notin> set (i ! 2)) AF_FILES"
  by (simp add: AF_FILES_def)

lemma dw_entries_harmless:
  "list_all (\<lambda>i. length i = 4 \<and> i ! 0 \<noteq> [] \<and> hd (i ! 0) \<noteq> CHR ''.''
                \<and> i ! 2 \<noteq> [] \<and> hd (i ! 2) \<noteq> CHR ''.'' \<and> CHR ''/'' \<notin> set (i ! 3)) DW_FILES"
  by (simp add: DW_FILES_def)

lemma dod_entries_harmless:
  "list_all (\<lambda>i. length i = 3 \<and> i ! 1 = ''DoD_Summary''
                \<and> i ! 2 \<noteq> [] \<and> hd (i ! 2) \<noteq> CHR ''.'' \<and> CHR ''/'' \<notin> set (i ! 2)) DOD_SUMMARY"
  by (simp add: DOD_SUMMARY_def)

text \<open>The components of the output path of one entry, for each of the four loops.\<close>

lemma service_path:
  assumes "service \<noteq> []" "hd service \<noteq> CHR ''.''" "CHR ''/'' \<notin> set service"
    and "category \<noteq> []" "hd category \<noteq> CHR ''.''"
    and "filename \<noteq> []" "hd filename \<noteq> CHR ''.''" "CHR ''/'' \<notin> set ext"
  defines "cs \<equiv> [service, safe_filename category, safe_filename filename @ ''.'' @ ext]"
  shows "split_sep (path_join OUTPUT_DIR cs) = OUTPUT_DIR # cs"
    and "inside OUTPUT_DIR (path_join OUTPUT_DIR cs)"
proof -
  note c = safe_filename_visible [OF assms(4,5)]
  note f = safe_filename_visible [OF assms(6,7)]
  have plain: "list_all (\<lambda>c. c \<noteq> [] \<and> CHR ''/'' \<notin> set c) cs"
    using assms(1,3,8) c f by (simp add: cs_def safe_filename_plain)
  show s: "split_sep (path_join OUTPUT_DIR cs) = OUTPUT_DIR # cs"
    by (rule split_path_join [OF plain])
  have "list_all (\<lambda>c. c \<noteq> [] \<and> hd c \<noteq> CHR ''.'') cs"
    using assms(1,2) c f by (simp add: cs_def)
  with s show "inside OUTPUT_DIR (path_join OUTPUT_DIR cs)"
    by (intro inside_components [where cs = cs]) (simp_all add: cs_def)
qed

lemma summary_path:
  assumes "subfolder \<noteq> []" "hd subfolder \<noteq> CHR ''.''" "CHR ''/'' \<notin> set subfolder"
    and "fname \<noteq> []" "hd fname \<noteq> CHR ''.''" "CHR ''/'' \<notin> set fname"
  shows "split_sep (path_join OUTPUT_DIR [subfolder, fname]) = [OUTPUT_DIR, subfolder, fname]"
    and "inside OUTPUT_DIR (path_join OUTPUT_DIR [subfolder, fname])"
proof -
  have plain: "list_all (\<lambda>c. c \<noteq> [] \<and> CHR ''/'' \<notin> set c) [subfolder, fname]"
    using assms by simp
  show s: "split_sep (path_join OUTPUT_DIR [subfolder, fname]) = [OUTPUT_DIR, subfolder, fname]"
    by (rule split_path_join [OF plain])
  have "list_all (\<lambda>c. c \<noteq> [] \<and> hd c \<noteq> CHR ''.'') [subfolder, fname]"
    using assms by simp
  with s show "inside OUTPUT_DIR (path_join OUTPUT_DIR [subfolder, fname])"
    by (intro inside_components [where cs = "[subfolder, fname]"]) simp_all
qed

lemma layout_of_list:
  assumes "list_all P items"
    and "\<And>i. P i \<Longrightarrow> \<exists>l u p. tgt i = Inr (l, u, p) \<and> split_sep p = comps i
                              \<and> inside OUTPUT_DIR p"
  shows "map (\<lambda>tg. split_sep (snd (snd tg))) (rights (map tgt items)) = map comps items"
    and "list_all (\<lambda>tg. inside OUTPUT_DIR (snd (snd tg))) (rights (map tgt items))"
  using assms(1)
proof (induction items)
  case Nil
  {
    case 1
    show ?case by simp
  next
    case 2
    show ?case by simp
  }
next
  case (Cons i items)
  {
    case 1
    then have "P i" "list_all P items" by simp_all
    with assms(2) [of i] Cons.IH(1) show ?case by auto
  next
    case 2
    then have "P i" "list_all P items" by simp_all
    with assms(2) [of i] Cons.IH(2) show ?case by auto
  }
qed

lemma army_layout:
  "map (\<lambda>tg. split_sep (snd (snd tg))) (rights (map army_target ARMY_FILES)) =
     map (\<lambda>i. [OUTPUT_DIR, ''Army'', safe_filename (i ! 0),
               safe_filename (i ! 1) @ ''.'' @ i ! 2]) ARMY_FILES"
  "list_all (\<lambda>tg. inside OUTPUT_DIR (snd (snd tg))) (rights (map army_target ARMY_FILES))"
proof -
  have one: "\<exists>l u p. army_target i = Inr (l, u, p)
        \<and> split_sep p = [OUTPUT_DIR, ''Army'', safe_filename (i ! 0),
               safe_filename (i ! 1) @ ''.'' @ i ! 2]
        \<and> inside OUTPUT_DIR p"
    if "length i = 3 \<and> i ! 0 \<noteq> [] \<and> hd (i ! 0) \<noteq> CHR ''.''
                \<and> i ! 1 \<noteq> [] \<and> hd (i ! 1) \<noteq> CHR ''.'' \<and> CHR ''/'' \<notin> set (i ! 2)" for i
  proof -
    from that obtain c f e where i: "i = [c, f, e]" by (auto dest: length3)
    from that have h: "c \<noteq> []" "hd c \<noteq> CHR ''.''" "f \<noteq> []" "hd f \<noteq> CHR ''.''"
        "CHR ''/'' \<notin> set e"
      by (simp_all add: i)
    from service_path [of "''Army''" c f e] h show ?thesis
      by (simp add: i Let_def)
  qed
  from layout_of_list [of _ ARMY_FILES army_target, OF army_entries_harmless one]
  show "map (\<lambda>tg. split_sep (snd (snd tg))) (rights (map army_target ARMY_FILES)) =
     map (\<lambda>i. [OUTPUT_DIR, ''Army'', safe_filename (i ! 0),
               safe_filename (i ! 1) @ ''.'' @ i ! 2]) ARMY_FILES"
    and "list_all (\<lambda>tg. inside OUTPUT_DIR (snd (snd tg))) (rights (map army_target ARMY_FILES))"
    by blast+
qed

lemma af_layout:
  "map (\<lambda>tg. split_sep (snd (snd tg))) (rights (map af_target AF_FILES)) =
     map (\<lambda>i. [OUTPUT_DIR, ''AirForce'', safe_filename (i ! 0),
               safe_filename (i ! 1) @ ''.'' @ i ! 2]) AF_FILES"
  "list_all (\<lambda>tg. inside OUTPUT_DIR (snd (snd tg))) (rights (map af_target AF_FILES))"
proof -
  have one: "\<exists>l u p. af_target i = Inr (l, u, p)
        \<and> split_sep p = [OUTPUT_DIR, ''AirForce'', safe_filename (i ! 0),
               safe_filename (i ! 1) @ ''.'' @ i ! 2]
        \<and> inside OUTPUT_DIR p"
    if "length i = 3 \<and> i ! 0 \<noteq> [] \<and> hd (i ! 0) \<noteq> CHR ''.''
                \<and> i ! 1 \<noteq> [] \<and> hd (i ! 1) \<noteq> CHR ''.'' \<and> CHR ''/'' \<notin> set (i ! 2)" for i
  proof -
    from that obtain c f e where i: "i = [c, f, e]" by (auto dest: length3)
    from that have h: "c \<noteq> []" "hd c \<noteq> CHR ''.''" "f \<noteq> []" "hd f \<noteq> CHR ''.''"
        "CHR ''/'' \<notin> set e"
      by (simp_all add: i)
    from service_path [of "''AirForce''" c f e] h show ?thesis
      by (simp add: i Let_def)
  qed
  from layout_of_list [of _ AF_FILES af_target, OF af_entries_harmless one]
  show "map (\<lambda>tg. split_sep (snd (snd tg))) (rights (map af_target AF_FILES)) =
     map (\<lambda>i. [OUTPUT_DIR, ''AirForce'', safe_filename (i ! 0),
               safe_filename (i ! 1) @ ''.'' @ i ! 2]) AF_FILES"
    and "list_all (\<lambda>tg. inside OUTPUT_DIR (snd (snd tg))) (rights (map af_target AF_FILES))"
    by blast+
qed

lemma dw_layout:
  "map (\<lambda>tg. split_sep (snd (snd tg))) (rights (map dw_target DW_FILES)) =
     map (\<lambda>i. [OUTPUT_DIR, ''DefenseWide'', safe_filename (i ! 0),
               safe_filename (i ! 2) @ ''.'' @ i ! 3]) DW_FILES"
  "list_all (\<lambda>tg. inside OUTPUT_DIR (snd (snd tg))) (rights (map dw_target DW_FILES))"
proof -
  have one: "\<exists>l u p. dw_target i = Inr (l, u, p)
        \<and> split_sep p = [OUTPUT_DIR, ''DefenseWide'', safe_filename (i ! 0),
               safe_filename (i ! 2) @ ''.'' @ i ! 3]
        \<and> inside OUTPUT_DIR p"
    if "length i = 4 \<and> i ! 0 \<noteq> [] \<and> hd (i ! 0) \<noteq> CHR ''.''
                \<and> i ! 2 \<noteq> [] \<and> hd (i ! 2) \<noteq> CHR ''.'' \<and> CHR ''/'' \<notin> set (i ! 3)" for i
  proof -
    from that obtain c q f e where i: "i = [c, q, f, e]" by (auto dest: length4)
    from that have h: "c \<noteq> []" "hd c \<noteq> CHR ''.''" "f \<noteq> []" "hd f \<noteq> CHR ''.''"
        "CHR ''/'' \<notin> set e"
      by (simp_all add: i)
    from service_path [of "''DefenseWide''" c f e] h show ?thesis
      by (simp add: i Let_def)
  qed
  from layout_of_list [of _ DW_FILES dw_target, OF dw_entries_harmless one]
  show "map (\<lambda>tg. split_sep (snd (snd tg))) (rights (map dw_target DW_FILES)) =
     map (\<lambda>i. [OUTPUT_DIR, ''DefenseWide'', safe_filename (i ! 0),
               safe_filename (i ! 2) @ ''.'' @ i ! 3]) DW_FILES"
    and "list_all (\<lambda>tg. inside OUTPUT_DIR (snd (snd tg))) (rights (map dw_target DW_FILES))"
    by blast+
qed

lemma dod_layout:
  "map (\<lambda>tg. split_sep (snd (snd tg))) (rights (map dod_target DOD_SUMMARY)) =
     map (\<lambda>i. [OUTPUT_DIR, ''DoD_Summary'', i ! 2]) DOD_SUMMARY"
  "list_all (\<lambda>tg. inside OUTPUT_DIR (snd (snd tg))) (rights (map dod_target DOD_SUMMARY))"
proof -
  have one: "\<exists>l u p. dod_target i = Inr (l, u, p)
        \<and> split_sep p = [OUTPUT_DIR, ''DoD_Summary'', i ! 2]
        \<and> inside OUTPUT_DIR p"
    if "length i = 3 \<and> i ! 1 = ''DoD_Summary''
                \<and> i ! 2 \<noteq> [] \<and> hd (i ! 2) \<noteq> CHR ''.'' \<and> CHR ''/'' \<notin> set (i ! 2)" for i
  proof -
    from that obtain u s f where i: "i = [u, s, f]" by (auto dest: length3)
    from that have h: "s = ''DoD_Summary''" "f \<noteq> []" "hd f \<noteq> CHR ''.''" "CHR ''/'' \<notin> set f"
      by (simp_all add: i)
    from summary_path [of "''DoD_Summary''" f] h show ?thesis
      by (simp add: i Let_def)
  qed
  from layout_of_list [of _ DOD_SUMMARY dod_target, OF dod_entries_harmless one]
  show "map (\<lambda>tg. split_sep (snd (snd tg))) (rights (map dod_target DOD_SUMMARY)) =
     map (\<lambda>i. [OUTPUT_DIR, ''DoD_Summary'', i ! 2]) DOD_SUMMARY"
    and "list_all (\<lambda>tg. inside OUTPUT_DIR (snd (snd tg))) (rights (map dod_target DOD_SUMMARY))"
    by blast+
qed

lemma targets_layout:
  "map (\<lambda>tg. split_sep (snd (snd tg))) (targets MANIFEST) =
     map (\<lambda>i. [OUTPUT_DIR, ''Army'', safe_filename (i ! 0),
               safe_filename (i ! 1) @ ''.'' @ i ! 2]) ARMY_FILES
     @ map (\<lambda>i. [OUTPUT_DIR, ''AirForce'', safe_filename (i ! 0),
                 safe_filename (i ! 1) @ ''.'' @ i ! 2]) AF_FILES
     @ map (\<lambda>i. [OUTPUT_DIR, ''DefenseWide'', safe_filename (i ! 0),
                 safe_filename (i ! 2) @ ''.'' @ i ! 3]) DW_FILES
     @ map (\<lambda>i. [OUTPUT_DIR, ''DoD_Summary'', i ! 2]) DOD_SUMMARY"
  by (simp add: targets_def MANIFEST_def rights_append army_layout(1) af_layout(1)
      dw_layout(1) dod_layout(1))

lemma targets_inside:
  "list_all (\<lambda>tg. inside OUTPUT_DIR (snd (snd tg))) (targets MANIFEST)"
  using army_layout(2) af_layout(2) dw_layout(2) dod_layout(2)
  by (simp add: targets_def MANIFEST_def rights_append)

text \<open>When every step of every download succeeds, each output path holds the body.\<close>

lemma fetch_all_ok:
  assumes "env (ncalls w) url out_path = all_ok data"
  shows "\<exists>t' w'. run_step env (Fetch (label, url, out_path)) (t, w) = (None, t', w')
           \<and> files w' = (files w)(out_path \<mapsto> data)"
proof -
  let ?oc = "env (ncalls w) url out_path"
  have ok: "makedirs_exn ?oc = None" "Request_exn ?oc = None" "urlopen_exn ?oc = None"
      "open_exn ?oc = None" "write_exn ?oc = None" "read_result ?oc = Inr data"
    by (simp_all add: assms all_ok_def)
  then have r: "fst (download_file ?oc url out_path w)
                  = Inr (True, size_message (length data))"
    by (simp add: download_file_True)
  have "fst (try_block ?oc url out_path (before_try url out_path w))
          = Inr (size_message (length data))"
    using ok by (simp add: try_block_Inr)
  from try_block_success [OF this] ok(6)
  have "files (snd (try_block ?oc url out_path (before_try url out_path w)))
          = (files w)(out_path \<mapsto> data)"
    by (simp add: before_try_files)
  with ok have f: "files (snd (download_file ?oc url out_path w)) = (files w)(out_path \<mapsto> data)"
    by (simp add: download_file_snd)
  show ?thesis
    using r f by (simp add: attempt_unfold emit_world print_result_world)
qed

lemma steps_files_written:
  assumes "\<And>n u p. env n u p = all_ok data"
    and "p \<in> set (map (\<lambda>tg. snd (url_path tg)) (fetched sts)) \<or> files w p = Some data"
  shows "files (snd (snd (for_each (run_step env) sts (t, w)))) p = Some data"
  using assms(2)
proof (induction sts arbitrary: t w)
  case Nil
  then show ?case by simp
next
  case (Cons st sts)
  show ?case
  proof (cases st)
    case (Announce line)
    with Cons.prems have "p \<in> set (map (\<lambda>tg. snd (url_path tg)) (fetched sts))
        \<or> files (print line w) p = Some data"
      by (simp add: print_world)
    from Cons.IH [OF this, of t] Announce show ?thesis
      by (simp add: say_unfold)
  next
    case (Fetch tg)
    obtain label url out_path where tg: "tg = (label, url, out_path)" by (cases tg)
    from fetch_all_ok [of env w url out_path data label t] assms(1)
    obtain t1 w1 where s: "run_step env (Fetch (label, url, out_path)) (t, w) = (None, t1, w1)"
        "files w1 = (files w)(out_path \<mapsto> data)"
      by blast
    from Cons.prems s(2) have "p \<in> set (map (\<lambda>tg. snd (url_path tg)) (fetched sts))
        \<or> files w1 p = Some data"
      by (auto simp: Fetch tg url_path_def)
    from Cons.IH [OF this, of t1] s(1) show ?thesis
      by (simp add: Fetch tg)
  qed
qed

text \<open>
  Claim C4, as amended. The output path of every manifest entry lies strictly inside the
  \<open>fy2026_budget\<close> directory, and a run of \<open>main\<close> changes no file but at these paths.
  For the entries of ARMY_FILES, AF_FILES and DW_FILES the path is
  \<open>fy2026_budget/<Service>/<Category>/<filename>.<ext>\<close> with the service folder
  \<open>Army\<close>, \<open>AirForce\<close> or \<open>DefenseWide\<close> and the category and file name passed through
  \<open>safe_filename\<close>; for the entries of DOD_SUMMARY it is
  \<open>fy2026_budget/DoD_Summary/<filename>\<close>, with no category level.
\<close>

theorem files_inside_output_dir:
  "list_all (\<lambda>tg. inside OUTPUT_DIR (snd (snd tg))) (targets MANIFEST)
   \<and> map (\<lambda>tg. split_sep (snd (snd tg))) (targets MANIFEST) =
       map (\<lambda>i. [OUTPUT_DIR, ''Army'', safe_filename (i ! 0),
                 safe_filename (i ! 1) @ ''.'' @ i ! 2]) ARMY_FILES
       @ map (\<lambda>i. [OUTPUT_DIR, ''AirForce'', safe_filename (i ! 0),
                   safe_filename (i ! 1) @ ''.'' @ i ! 2]) AF_FILES
       @ map (\<lambda>i. [OUTPUT_DIR, ''DefenseWide'', safe_filename (i ! 0),
                   safe_filename (i ! 2) @ ''.'' @ i ! 3]) DW_FILES
       @ map (\<lambda>i. [OUTPUT_DIR, ''DoD_Summary'', i ! 2]) DOD_SUMMARY
   \<and> (case main env cwd w of (r, t', w') \<Rightarrow>
        files w' p \<noteq> files w p \<longrightarrow>
          p \<in> set (map (\<lambda>tg. snd (snd tg)) (targets MANIFEST)) \<and> inside OUTPUT_DIR p)"
proof -
  obtain r t' w' where m: "main_with MANIFEST env cwd w = (r, t', w')"
    by (cases "main_with MANIFEST env cwd w")
  have "files w' p \<noteq> files w p \<longrightarrow>
          p \<in> set (map (\<lambda>tg. snd (snd tg)) (targets MANIFEST)) \<and> inside OUTPUT_DIR p"
  proof
    assume "files w' p \<noteq> files w p"
    from main_with_facts(7) [OF MANIFEST_well_shaped m this]
    have p: "p \<in> set (map (\<lambda>tg. snd (snd tg)) (targets MANIFEST))"
      by (force simp: url_path_def)
    with targets_inside have "inside OUTPUT_DIR p"
      by (auto simp: list_all_iff)
    with p show "p \<in> set (map (\<lambda>tg. snd (snd tg)) (targets MANIFEST)) \<and> inside OUTPUT_DIR p"
      by simp
  qed
  with targets_inside targets_layout show ?thesis
    by (simp add: main_def m)
qed

theorem files_inside_output_dir_witness:
  "files (snd (snd (main (always (all_ok [1, 2, 3])) ''/srv'' init_world)))
       ''fy2026_budget/Army/Military Personnel/Military Personnel Army Volume 1.xml''
     \<noteq> files init_world
       ''fy2026_budget/Army/Military Personnel/Military Personnel Army Volume 1.xml''
   \<and> ''fy2026_budget/Army/Military Personnel/Military Personnel Army Volume 1.xml''
       \<in> set (map (\<lambda>tg. snd (snd tg)) (targets MANIFEST))
   \<and> inside OUTPUT_DIR
       ''fy2026_budget/Army/Military Personnel/Military Personnel Army Volume 1.xml''"
proof -
  let ?env = "always (all_ok [1, 2, 3])"
  let ?p = "''fy2026_budget/Army/Military Personnel/Military Personnel Army Volume 1.xml''"
  let ?t0 = "\<lparr>success_count = 0, fail_count = 0, failures = []\<rparr>"
  let ?wb = "init_world\<lparr>events := events init_world @ map Print banner\<rparr>"
  have "targets MANIFEST \<noteq> []"
    using length_targets_MANIFEST by auto
  then have "hd (targets MANIFEST) \<in> set (targets MANIFEST)" by simp
  then have mem: "?p \<in> set (map (\<lambda>tg. snd (url_path tg)) (fetched (steps MANIFEST)))"
    by (force simp: first_target fetched_steps url_path_def)
  have ok: "\<And>n u p. ?env n u p = all_ok [1, 2, 3]"
    by (simp add: always_def)
  have ne: "no_escape ?env"
    by (simp add: always_def no_escape_all_ok)
  have loop: "files (snd (snd (for_each (run_step ?env) (steps MANIFEST) (?t0, ?wb)))) ?p
      = Some [1, 2, 3]"
    by (rule steps_files_written [of ?env, OF ok]) (use mem in blast)
  have r: "fst (for_each (run_step ?env) (steps MANIFEST) (?t0, ?wb)) = None"
    by (rule steps_complete [OF ne])
  have "files (snd (snd (main ?env ''/srv'' init_world))) ?p = Some [1, 2, 3]"
    using loop r
    by (simp add: main_def main_with_steps [OF MANIFEST_well_shaped] case_prod_beta
        split: option.splits)
  then have changed: "files (snd (snd (main ?env ''/srv'' init_world))) ?p
      \<noteq> files init_world ?p"
    by (simp add: init_world_def)
  from files_inside_output_dir [where env = ?env and cwd = "''/srv''" and w = init_world
      and p = ?p] changed
  show ?thesis
    by (simp add: case_prod_beta)
qed

theorem summary_files_one_level:
  "dod_target (hd DOD_SUMMARY) =
     Inr (''FY2026_M1_Military_Personnel.xlsx'',
          ''https://comptroller.war.gov/Portals/45/Documents/defbudget/FY2026/m1_display.xlsx'',
          ''fy2026_budget/DoD_Summary/FY2026_M1_Military_Personnel.xlsx'')
   \<and> split_sep ''fy2026_budget/DoD_Summary/FY2026_M1_Military_Personnel.xlsx'' =
       [''fy2026_budget'', ''DoD_Summary'', ''FY2026_M1_Military_Personnel.xlsx'']"
proof -
  have dod: "hd DOD_SUMMARY =
       [''https://comptroller.war.gov/Portals/45/Documents/defbudget/FY2026/m1_display.xlsx'',
        ''DoD_Summary'', ''FY2026_M1_Military_Personnel.xlsx'']"
    by (simp add: DOD_SUMMARY_def)
  show ?thesis
    unfolding dod
    by (simp add: Let_def OUTPUT_DIR_def path_join_def join_step_def)
qed

section \<open>The strings of the manifest do not steer the run\<close>
























end
